theory Spec2Isabelle
  imports Complex_Main "HOL-Library.Sublist"
begin

section \<open>Data model\<close>

text \<open>
  JavaScript strings are modelled as \<open>string\<close>: a list of UTF-16 code units, each below 256
  (text of the Latin-1 range, where a \<open>char\<close> is one code unit and \<open>length\<close> is the
  \<open>length\<close> property). JavaScript numbers are \<open>real\<close> (scores) or \<open>int\<close> (timestamps in
  milliseconds, numbers inside option objects). A property that may be \<open>undefined\<close> is an
  \<open>option\<close>.
\<close>

text \<open>A search result, as the search engines of the search plugin build it.\<close>

record source =
  ident :: string
  title :: "string option"
  url :: string
  snippet :: "string option"
  origin :: string
  quality :: real
  relevance :: real

section \<open>String primitives of the JavaScript runtime\<close>

text \<open>
  White space, as \<open>trim\<close> and the character class \<open>\s\<close> take it, among the code units
  below 256: TAB, LF, VT, FF, CR, space and the no-break space U+00A0.
\<close>

definition isSpace :: "char \<Rightarrow> bool" where
  "isSpace c =
     (c \<in> set [CHR '' '', CHR 0x09, CHR 0x0A, CHR 0x0B, CHR 0x0C, CHR 0x0D, CHR 0xA0])"

text \<open>The character class \<open>\w\<close>: letters, digits and the underscore.\<close>

definition isWordChar :: "char \<Rightarrow> bool" where
  "isWordChar c =
     (c \<in> set ''abcdefghijklmnopqrstuvwxyzABCDEFGHIJKLMNOPQRSTUVWXYZ0123456789_'')"

definition isDigit :: "char \<Rightarrow> bool" where
  "isDigit c = (c \<in> set ''0123456789'')"

text \<open>The character class \<open>[.!?]\<close> of the sentence splitter.\<close>

definition isSentenceDelim :: "char \<Rightarrow> bool" where
  "isSentenceDelim c = (c = CHR ''.'' \<or> c = CHR ''!'' \<or> c = CHR ''?'')"

text \<open>\<open>String.prototype.trim\<close>.\<close>

definition trim :: "string \<Rightarrow> string" where
  "trim s = rev (dropWhile isSpace (rev (dropWhile isSpace s)))"

text \<open>
  \<open>String.prototype.toLowerCase\<close>: the letters A to Z and the capital letters of the
  Latin-1 range (U+00C0 to U+00DE without the multiplication sign U+00D7) go to their small
  letters, 32 code units above; every other code unit below 256 stays.
\<close>

definition upperLetters :: string where
  "upperLetters =
     ''ABCDEFGHIJKLMNOPQRSTUVWXYZ'' @
     [CHR 0xC0, CHR 0xC1, CHR 0xC2, CHR 0xC3, CHR 0xC4, CHR 0xC5, CHR 0xC6, CHR 0xC7,
      CHR 0xC8, CHR 0xC9, CHR 0xCA, CHR 0xCB, CHR 0xCC, CHR 0xCD, CHR 0xCE, CHR 0xCF,
      CHR 0xD0, CHR 0xD1, CHR 0xD2, CHR 0xD3, CHR 0xD4, CHR 0xD5, CHR 0xD6, CHR 0xD8,
      CHR 0xD9, CHR 0xDA, CHR 0xDB, CHR 0xDC, CHR 0xDD, CHR 0xDE]"

definition lowerLetters :: string where
  "lowerLetters =
     ''abcdefghijklmnopqrstuvwxyz'' @
     [CHR 0xE0, CHR 0xE1, CHR 0xE2, CHR 0xE3, CHR 0xE4, CHR 0xE5, CHR 0xE6, CHR 0xE7,
      CHR 0xE8, CHR 0xE9, CHR 0xEA, CHR 0xEB, CHR 0xEC, CHR 0xED, CHR 0xEE, CHR 0xEF,
      CHR 0xF0, CHR 0xF1, CHR 0xF2, CHR 0xF3, CHR 0xF4, CHR 0xF5, CHR 0xF6, CHR 0xF8,
      CHR 0xF9, CHR 0xFA, CHR 0xFB, CHR 0xFC, CHR 0xFD, CHR 0xFE]"

definition toLowerChar :: "char \<Rightarrow> char" where
  "toLowerChar c =
     (case map_of (zip upperLetters lowerLetters) c of
        Some l \<Rightarrow> l
      | None \<Rightarrow> c)"

definition toLowerCase :: "string \<Rightarrow> string" where
  "toLowerCase s = map toLowerChar s"

text \<open>\<open>String.prototype.includes\<close>: the argument occurs as a contiguous substring.\<close>

fun str_includes :: "string \<Rightarrow> string \<Rightarrow> bool" where
  "str_includes [] sub = (sub = [])"
| "str_includes (c # cs) sub = (prefix sub (c # cs) \<or> str_includes cs sub)"

definition startsWith :: "(char \<Rightarrow> bool) \<Rightarrow> string \<Rightarrow> bool" where
  "startsWith p s = (case s of [] \<Rightarrow> False | c # _ \<Rightarrow> p c)"

text \<open>
  \<open>s.split(/[d]+/)\<close> for a character class \<open>d\<close>: the text is cut at every maximal run of
  separator characters. A separator run at the start or at the end of the text leaves an
  empty segment there, and the empty text has the single segment \<open>''''\<close>.
\<close>

fun splitRuns :: "(char \<Rightarrow> bool) \<Rightarrow> string \<Rightarrow> string list" where
  "splitRuns d [] = [[]]"
| "splitRuns d (c # cs) =
     (if d c then (if startsWith d cs then splitRuns d cs else [] # splitRuns d cs)
      else (case splitRuns d cs of
              [] \<Rightarrow> [[c]]
            | seg # segs \<Rightarrow> (c # seg) # segs))"

text \<open>\<open>s.replace(/\s+/g, ' ')\<close>: every maximal run of whitespace becomes one space.\<close>

fun collapseSpaces :: "string \<Rightarrow> string" where
  "collapseSpaces [] = []"
| "collapseSpaces (c # cs) =
     (if isSpace c then (if startsWith isSpace cs then collapseSpaces cs
                         else CHR '' '' # collapseSpaces cs)
      else c # collapseSpaces cs)"

section \<open>Search plugin: deduplication\<close>

text \<open>
  \<open>SearchPlugin.deduplicateResults\<close>: the callback of \<open>results.filter\<close> runs over the results
  in order and threads the two sets \<open>seenUrls\<close> and \<open>seenTitles\<close>.
\<close>

fun deduplicateLoop :: "string set \<Rightarrow> string option set \<Rightarrow> source list \<Rightarrow> source list" where
  "deduplicateLoop seenUrls seenTitles [] = []"
| "deduplicateLoop seenUrls seenTitles (r # rs) =
     (if url r \<in> seenUrls \<or> title r \<in> seenTitles
      then deduplicateLoop seenUrls seenTitles rs
      else r # deduplicateLoop (insert (url r) seenUrls) (insert (title r) seenTitles) rs)"

definition deduplicateResults :: "source list \<Rightarrow> source list" where
  "deduplicateResults results = deduplicateLoop {} {} results"

section \<open>Verification plugin: claim extraction\<close>

text \<open>
  The first statement of both loops of the verification plugin:
  \<open>content.split(/[.!?]+/).map(s => s.trim()).filter(s => s.length > 10)\<close>.
\<close>

definition extractSentences :: "string \<Rightarrow> string list" where
  "extractSentences content =
     filter (\<lambda>s. length s > 10) (map trim (splitRuns isSentenceDelim content))"


section \<open>Analyzed results\<close>

text \<open>What \<open>extractContent\<close> returns (the time stamp \<open>extractedAt\<close> is left out).\<close>

record extracted_content =
  ex_title :: string
  ex_content :: string
  ex_url :: string

text \<open>
  The scores of the analysis capability. The built-in plugin sets every field; the
  fallback of the orchestrator sets neither \<open>bias\<close> nor \<open>readability\<close>, and a custom
  plugin may leave out any of them, so the fields the verification plugin guards with a
  truthiness test are optional. The entity and topic lists are read by no function
  modelled here and are left out.
\<close>

record analysis_scores =
  a_relevance :: "real option"
  sentiment :: string
  a_quality :: "real option"
  bias :: "string option"
  readability :: "real option"

text \<open>One element of \<open>researchContext.results\<close>.\<close>

record analyzed_result =
  source :: source
  content :: extracted_content
  analysis :: "analysis_scores option"

text \<open>JavaScript truthiness of an optional number and of an optional string.\<close>

definition truthyNum :: "real option \<Rightarrow> bool" where
  "truthyNum v = (case v of None \<Rightarrow> False | Some x \<Rightarrow> x \<noteq> 0)"

definition truthyStr :: "string option \<Rightarrow> bool" where
  "truthyStr v = (case v of None \<Rightarrow> False | Some s \<Rightarrow> s \<noteq> [])"

text \<open>\<open>v || d\<close> for an optional string \<open>v\<close>.\<close>

definition strOr :: "string option \<Rightarrow> string \<Rightarrow> string" where
  "strOr v d = (if truthyStr v then the v else d)"

section \<open>Verification plugin\<close>

record occurrence =
  occ_source :: "string option"
  occ_url :: string
  occ_content :: string

record cross_reference =
  cr_claim :: string
  cr_sources :: "occurrence list"
  cr_count :: nat

record fact_check =
  fc_claim :: string
  fc_source :: "string option"
  fc_url :: string
  fc_status :: string
  fc_confidence :: real

record credibility_entry =
  ce_source :: "string option"
  ce_url :: string
  credibility :: real

text \<open>The verification object (the summary text is left out).\<close>

record verification =
  status :: string
  confidence :: real
  cross_references :: "cross_reference list"
  fact_checks :: "fact_check list"
  credibility_scores :: "credibility_entry list"

text \<open>\<open>normalizeClaim\<close>: lower case, whitespace runs to one space, punctuation removed, trimmed.\<close>

definition normalizeClaim :: "string \<Rightarrow> string" where
  "normalizeClaim claim =
     trim (filter (\<lambda>c. isWordChar c \<or> isSpace c) (collapseSpaces (toLowerCase claim)))"

text \<open>
  The \<open>Map\<close> from normalized claims to the list of their occurrences, in insertion order
  of the keys. \<open>claimsMapPush\<close> is the body of the inner loop: create the entry with an
  empty list when the key is new, then push the occurrence onto the entry's list.
\<close>

type_synonym claims_map = "(string \<times> occurrence list) list"

fun claimsMapPush :: "claims_map \<Rightarrow> string \<Rightarrow> occurrence \<Rightarrow> claims_map" where
  "claimsMapPush [] k v = [(k, [v])]"
| "claimsMapPush ((k', vs) # m) k v =
     (if k' = k then (k', vs @ [v]) # m else (k', vs) # claimsMapPush m k v)"

definition occurrenceOf :: "analyzed_result \<Rightarrow> string \<Rightarrow> occurrence" where
  "occurrenceOf result sentence =
     \<lparr>occ_source = title (source result), occ_url = url (source result),
      occ_content = sentence\<rparr>"

definition collectClaims :: "analyzed_result list \<Rightarrow> claims_map" where
  "collectClaims results =
     foldl (\<lambda>claimsMap result.
              foldl (\<lambda>m sentence. claimsMapPush m (normalizeClaim sentence)
                                     (occurrenceOf result sentence))
                claimsMap (extractSentences (ex_content (content result))))
       [] results"

text \<open>
  \<open>performCrossReferencing\<close>: the entries with more than one occurrence, sorted by count,
  largest first (\<open>Array.prototype.sort\<close> is stable, as \<open>sort_key\<close> is).
\<close>

definition performCrossReferencing :: "analyzed_result list \<Rightarrow> cross_reference list" where
  "performCrossReferencing results =
     sort_key (\<lambda>c. - int (cr_count c))
       (map (\<lambda>(claim, sources). \<lparr>cr_claim = claim, cr_sources = sources,
                                  cr_count = length sources\<rparr>)
          (filter (\<lambda>(claim, sources). length sources > 1) (collectClaims results)))"

text \<open>
  \<open>performFactChecking\<close>: \<open>/\d{4}|\d+/\<close> matches exactly the sentences with a digit; the
  second pattern is a list of alternatives, case sensitive.
\<close>

definition hasNumber :: "string \<Rightarrow> bool" where
  "hasNumber sentence = (\<exists>c \<in> set sentence. isDigit c)"

definition hasSpecificClaim :: "string \<Rightarrow> bool" where
  "hasSpecificClaim sentence =
     (\<exists>w \<in> set [''found'', ''discovered'', ''research'', ''study'', ''shows'', ''indicates'',
                  ''reveals'', ''demonstrates'']. str_includes sentence w)"

definition performFactChecking :: "analyzed_result list \<Rightarrow> fact_check list" where
  "performFactChecking results =
     concat (map (\<lambda>result.
        map (\<lambda>sentence. \<lparr>fc_claim = sentence, fc_source = title (source result),
                           fc_url = url (source result), fc_status = ''unchecked'',
                           fc_confidence = 0.5\<rparr>)
          (filter (\<lambda>sentence. hasNumber sentence \<or> hasSpecificClaim sentence)
             (extractSentences (ex_content (content result))))) results)"

text \<open>
  The body of the loop of \<open>calculateCredibility\<close>: the variable \<open>score\<close> after each of
  its statements.
\<close>

definition domainStep :: "string \<Rightarrow> real \<Rightarrow> real" where
  "domainStep u score =
     (if str_includes u ''edu'' \<or> str_includes u ''org'' \<or> str_includes u ''gov''
      then score + 0.2
      else if str_includes u ''com'' then score + 0.1
      else score)"

definition qualityStep :: "analysis_scores option \<Rightarrow> real \<Rightarrow> real" where
  "qualityStep an score =
     (case an of
        None \<Rightarrow> score
      | Some a \<Rightarrow> if truthyNum (a_quality a) then (score + the (a_quality a)) / 2 else score)"

definition biasStep :: "analysis_scores option \<Rightarrow> real \<Rightarrow> real" where
  "biasStep an score =
     (case an of
        None \<Rightarrow> score
      | Some a \<Rightarrow>
          if truthyStr (bias a)
          then (if bias a = Some ''high'' then score - 0.2
                else if bias a = Some ''medium'' then score - 0.1
                else score)
          else score)"

definition readabilityStep :: "analysis_scores option \<Rightarrow> real \<Rightarrow> real" where
  "readabilityStep an score =
     (case an of
        None \<Rightarrow> score
      | Some a \<Rightarrow>
          if truthyNum (readability a)
          then (if the (readability a) < 0.2 then score - 0.1
                else if the (readability a) > 0.7 then score + 0.1
                else score)
          else score)"

definition credibilityScore :: "analyzed_result \<Rightarrow> real" where
  "credibilityScore result =
     (let score = 0.5;
          score = domainStep (url (source result)) score;
          score = qualityStep (analysis result) score;
          score = biasStep (analysis result) score;
          score = readabilityStep (analysis result) score
      in max 0 (min 1 score))"

definition calculateCredibility :: "analyzed_result list \<Rightarrow> credibility_entry list" where
  "calculateCredibility results =
     map (\<lambda>result. \<lparr>ce_source = title (source result), ce_url = url (source result),
                      credibility = credibilityScore result\<rparr>) results"

text \<open>\<open>calculateOverallConfidence\<close>; \<open>reduce\<close> is a left fold from 0.\<close>

definition calculateOverallConfidence :: "verification \<Rightarrow> real" where
  "calculateOverallConfidence v =
     (let crossRefConfidence = min 1.0 (real (length (cross_references v)) * 0.3);
          avgCredibility =
            (if length (credibility_scores v) > 0
             then foldl (\<lambda>sum score. sum + credibility score) 0 (credibility_scores v)
                    / real (length (credibility_scores v))
             else 0.5)
      in crossRefConfidence * 0.6 + avgCredibility * 0.4)"

text \<open>\<open>verify\<close>, which reads only the results of the research context.\<close>

definition verify :: "analyzed_result list \<Rightarrow> verification" where
  "verify results =
     (let v = \<lparr>status = ''completed'', confidence = 0, cross_references = [],
               fact_checks = [], credibility_scores = []\<rparr>;
          v = v\<lparr>cross_references := performCrossReferencing results\<rparr>;
          v = v\<lparr>fact_checks := performFactChecking results\<rparr>;
          v = v\<lparr>credibility_scores := calculateCredibility results\<rparr>;
          v = v\<lparr>confidence := calculateOverallConfidence v\<rparr>
      in v)"

section \<open>The credibility score in closed form\<close>




section \<open>The credibility score as the specification words it\<close>

text \<open>
  The top-level domain of a url: the text after the last dot of the host, the host being
  what stands between the scheme separator and the next \<open>/\<close>, \<open>:\<close>, \<open>?\<close> or \<open>#\<close>.
\<close>

fun afterScheme :: "string \<Rightarrow> string" where
  "afterScheme (a # b # c # rest) =
     (if [a, b, c] = ''://'' then rest else afterScheme (b # c # rest))"
| "afterScheme s = s"

definition hostOf :: "string \<Rightarrow> string" where
  "hostOf u =
     takeWhile (\<lambda>c. c \<notin> set ''/:?#'') (if str_includes u ''://'' then afterScheme u else u)"

definition topLevelDomain :: "string \<Rightarrow> string" where
  "topLevelDomain u = rev (takeWhile (\<lambda>c. c \<noteq> CHR ''.'') (rev (hostOf u)))"


section \<open>Option objects and the cache key\<close>

text \<open>
  A JSON value. An object is the list of its own properties in the order in which
  \<open>JSON.stringify\<close> enumerates them (for the string keys of an options object: the order
  in which the fields were written); its keys are pairwise different. Numbers are
  integers of a magnitude that JavaScript prints in plain decimal notation; a value that
  \<open>JSON.stringify\<close> would leave out (\<open>undefined\<close>, a function) does not occur.
\<close>

datatype json =
  JNull
| JBool bool
| JNum int
| JStr string
| JArr "json list"
| JObj "(string \<times> json) list"

definition digitChar :: "nat \<Rightarrow> char" where
  "digitChar n = ''0123456789abcdef'' ! n"

fun showNat :: "nat \<Rightarrow> string" where
  "showNat n = (if n < 10 then [digitChar n] else showNat (n div 10) @ [digitChar (n mod 10)])"

definition showInt :: "int \<Rightarrow> string" where
  "showInt i = (if i < 0 then CHR ''-'' # showNat (nat (- i)) else showNat (nat i))"

text \<open>The escapes of \<open>JSON.stringify\<close> for the characters of a string.\<close>

definition quoteChar :: "char \<Rightarrow> string" where
  "quoteChar c =
     (if c = CHR 0x22 then [CHR 0x5C, CHR 0x22]
      else if c = CHR 0x5C then [CHR 0x5C, CHR 0x5C]
      else if c = CHR 0x08 then [CHR 0x5C, CHR ''b'']
      else if c = CHR 0x09 then [CHR 0x5C, CHR ''t'']
      else if c = CHR 0x0A then [CHR 0x5C, CHR ''n'']
      else if c = CHR 0x0C then [CHR 0x5C, CHR ''f'']
      else if c = CHR 0x0D then [CHR 0x5C, CHR ''r'']
      else if (of_char c :: nat) < 32
        then [CHR 0x5C, CHR ''u'', CHR ''0'', CHR ''0'',
              digitChar (of_char c div 16), digitChar (of_char c mod 16)]
      else [c])"

definition quoteJSON :: "string \<Rightarrow> string" where
  "quoteJSON s = [CHR 0x22] @ concat (map quoteChar s) @ [CHR 0x22]"

text \<open>\<open>Array.prototype.join\<close> with a comma.\<close>

fun joinComma :: "string list \<Rightarrow> string" where
  "joinComma [] = []"
| "joinComma [x] = x"
| "joinComma (x # y # ys) = x @ '','' @ joinComma (y # ys)"

text \<open>\<open>JSON.stringify\<close> without indentation.\<close>

fun stringify :: "json \<Rightarrow> string" where
  "stringify JNull = ''null''"
| "stringify (JBool b) = (if b then ''true'' else ''false'')"
| "stringify (JNum n) = showInt n"
| "stringify (JStr s) = quoteJSON s"
| "stringify (JArr xs) = ''['' @ joinComma (map stringify xs) @ '']''"
| "stringify (JObj kvs) =
     ''{'' @ joinComma (map (\<lambda>kv. quoteJSON (fst kv) @ '':'' @ stringify (snd kv)) kvs) @ ''}''"

text \<open>\<open>generateCacheKey\<close>: the template \<open>${topic}_${stringifiedOptions}\<close>.\<close>

definition generateCacheKey :: "string \<Rightarrow> json \<Rightarrow> string" where
  "generateCacheKey topic options =
     (let stringifiedOptions = stringify options in topic @ ''_'' @ stringifiedOptions)"

text \<open>
  Two option objects are semantically equal when they hold the same keys with the same
  values, in whatever order.
\<close>

definition semanticallyEqual :: "(string \<times> json) list \<Rightarrow> (string \<times> json) list \<Rightarrow> bool" where
  "semanticallyEqual a b =
     (distinct (map fst a) \<and> distinct (map fst b) \<and> set a = set b)"

section \<open>The research agent\<close>

text \<open>A thrown \<open>Error\<close> with its message.\<close>

datatype error = Error (message: string)

text \<open>The invocations of capabilities a call makes, in order (a log kept by the model).\<close>

datatype capability_call =
  SearchCall string
| AnalysisCall extracted_content
| VerificationCall
| SynthesisCall string
| CitationCall

text \<open>The events of a research call, without their payload.\<close>

datatype event =
  ResearchStart
| ResearchCacheHit string
| ResearchComplete
| ResearchError string

text \<open>
  The result of \<open>generateAnalysis\<close>: \<open>queryLLM\<close> returns an object with the single field
  \<open>content\<close>, so the lists \<open>trends\<close> and \<open>gaps\<close> and the quality assessment are always empty
  and are left out, as are the time stamps.
\<close>

record synthesis =
  summary :: string
  keyPoints :: "string list"

datatype citation = Citation (ct_title: "string option") (ct_url: string) (ct_text: string)

record report =
  rp_content :: string
  rp_citations :: "citation list"
  rp_format :: "json option"

text \<open>
  The research context. \<open>ctx_analysis\<close> is \<open>None\<close> while it is the empty object of the
  initial context; \<open>ctx_verification\<close> and \<open>ctx_report\<close> are \<open>None\<close> while unset.
\<close>

record research_context =
  ctx_topic :: string
  ctx_options :: "(string \<times> json) list"
  ctx_results :: "analyzed_result list"
  ctx_sources :: "source list"
  ctx_analysis :: "synthesis option"
  ctx_verification :: "verification option"
  ctx_report :: "report option"

record cache_entry =
  data :: research_context
  timestamp :: int

text \<open>The content of a cache file: text that \<open>JSON.parse\<close> rejects, or a parsed record.\<close>

datatype cache_file = Unparseable | Parsed cache_entry

record history_entry =
  h_topic :: string
  h_results :: research_context

text \<open>
  The mutable state of an agent: the in-memory cache (tier 1), the research history, the
  files of the cache directory by path (tier 2), the persisted result files, and the two
  logs of emitted events and of capability invocations.
\<close>

record agent =
  cache :: "string \<rightharpoonup> cache_entry"
  researchHistory :: "history_entry list"
  cacheFiles :: "string \<rightharpoonup> cache_file"
  resultFiles :: "research_context list"
  events :: "event list"
  invoked :: "capability_call list"

text \<open>
  What a research call reads and does not change: the configuration values, the loaded
  plugins (\<open>None\<close> when \<open>plugins.get\<close> finds none; a plugin method returns or throws), the
  language model behind \<open>queryLLM\<close>, the two prompt templates, the clock, fresh
  identifiers, and the file system (the path of a key's cache file, which paths can be
  written).
\<close>

record env =
  maxSources :: nat
  verificationEnabled :: bool
  cacheEnabled :: bool
  cacheTtl :: int
  persistResults :: bool
  customization :: "(string \<times> json) list"
  searchPlugin :: "(string \<Rightarrow> (string \<times> json) list \<Rightarrow> error + source list) option"
  analysisPlugin :: "(extracted_content \<Rightarrow> string \<Rightarrow> error + analysis_scores option) option"
  verificationPlugin :: "(research_context \<Rightarrow> error + verification) option"
  citationPlugin :: "(analyzed_result list \<Rightarrow> error + citation list) option"
  queryLLM :: "string \<Rightarrow> error + string"
  buildAnalysisPrompt :: "research_context \<Rightarrow> string"
  buildReportPrompt :: "research_context \<Rightarrow> string"
  dateNow :: int
  currentYear :: string
  uuidv4 :: string
  cacheFilePath :: "string \<Rightarrow> string"
  resultFilePath :: string
  writable :: "string \<Rightarrow> bool"

text \<open>A capability's outcome (thrown error or value) with the invocations made.\<close>

type_synonym 'a traced = "(error + 'a) \<times> capability_call list"

definition emit :: "event \<Rightarrow> agent \<Rightarrow> agent" where
  "emit ev st = st\<lparr>events := events st @ [ev]\<rparr>"

text \<open>Truthiness and \<open>typeof\<close> of the topic argument (\<open>None\<close> is \<open>undefined\<close>).\<close>

fun truthy :: "json option \<Rightarrow> bool" where
  "truthy None = False"
| "truthy (Some JNull) = False"
| "truthy (Some (JBool b)) = b"
| "truthy (Some (JNum n)) = (n \<noteq> 0)"
| "truthy (Some (JStr s)) = (s \<noteq> [])"
| "truthy (Some (JArr xs)) = True"
| "truthy (Some (JObj kvs)) = True"

fun typeOf :: "json option \<Rightarrow> string" where
  "typeOf None = ''undefined''"
| "typeOf (Some JNull) = ''object''"
| "typeOf (Some (JBool b)) = ''boolean''"
| "typeOf (Some (JNum n)) = ''number''"
| "typeOf (Some (JStr s)) = ''string''"
| "typeOf (Some (JArr xs)) = ''object''"
| "typeOf (Some (JObj kvs)) = ''object''"

fun stringOf :: "json option \<Rightarrow> string" where
  "stringOf (Some (JStr s)) = s"
| "stringOf v = []"

text \<open>The spread \<open>{ ...a, ...b }\<close> of two objects.\<close>

fun objectSet :: "(string \<times> json) list \<Rightarrow> string \<times> json \<Rightarrow> (string \<times> json) list" where
  "objectSet [] kv = [kv]"
| "objectSet (p # ps) kv = (if fst p = fst kv then kv # ps else p # objectSet ps kv)"

definition objectSpread :: "(string \<times> json) list \<Rightarrow> (string \<times> json) list \<Rightarrow> (string \<times> json) list" where
  "objectSpread a b = foldl objectSet a b"

subsection \<open>The two-tier cache\<close>

definition fresh :: "env \<Rightarrow> cache_entry \<Rightarrow> bool" where
  "fresh env entry = (dateNow env - timestamp entry < cacheTtl env * 1000)"

text \<open>
  \<open>getCachedResult\<close>. A failing \<open>readFile\<close> (no such file) and a failing \<open>JSON.parse\<close> end in
  the \<open>catch\<close> block, which returns \<open>null\<close>; \<open>unlink\<close> of an expired file succeeds. The
  clock is read once per call.
\<close>

definition getCachedResult :: "env \<Rightarrow> agent \<Rightarrow> string \<Rightarrow> research_context option \<times> agent" where
  "getCachedResult env st cacheKey =
     (let (hit, st) =
            (case cache st cacheKey of
               None \<Rightarrow> (None, st)
             | Some cached \<Rightarrow>
                 if fresh env cached then (Some (data cached), st)
                 else (None, st\<lparr>cache := (cache st)(cacheKey := None)\<rparr>))
      in case hit of
           Some d \<Rightarrow> (Some d, st)
         | None \<Rightarrow>
             if cacheEnabled env
             then (let cacheFile = cacheFilePath env cacheKey in
                   case cacheFiles st cacheFile of
                     None \<Rightarrow> (None, st)
                   | Some Unparseable \<Rightarrow> (None, st)
                   | Some (Parsed parsed) \<Rightarrow>
                       if fresh env parsed then (Some (data parsed), st)
                       else (None, st\<lparr>cacheFiles := (cacheFiles st)(cacheFile := None)\<rparr>))
             else (None, st))"

text \<open>\<open>setCachedResult\<close>; a failing \<open>writeFile\<close> is caught and logged.\<close>

definition setCachedResult :: "env \<Rightarrow> agent \<Rightarrow> string \<Rightarrow> research_context \<Rightarrow> agent" where
  "setCachedResult env st cacheKey d =
     (let st = st\<lparr>cache := (cache st)(cacheKey \<mapsto> \<lparr>data = d, timestamp = dateNow env\<rparr>)\<rparr>;
          cacheFile = cacheFilePath env cacheKey
      in if cacheEnabled env \<and> writable env cacheFile
         then st\<lparr>cacheFiles :=
                   (cacheFiles st)(cacheFile \<mapsto> Parsed \<lparr>data = d, timestamp = dateNow env\<rparr>)\<rparr>
         else st)"

definition persistResultsTo :: "env \<Rightarrow> agent \<Rightarrow> research_context \<Rightarrow> agent" where
  "persistResultsTo env st researchContext =
     (if writable env (resultFilePath env)
      then st\<lparr>resultFiles := resultFiles st @ [researchContext]\<rparr>
      else st)"

subsection \<open>The stages\<close>

definition fallbackSearch :: "env \<Rightarrow> string \<Rightarrow> source list" where
  "fallbackSearch env topic =
     [\<lparr>ident = uuidv4 env, title = Some (''General search results for: '' @ topic),
       url = ''#'', snippet = Some (''Search results for '' @ topic), origin = ''fallback'',
       quality = 0.8, relevance = 0.9\<rparr>]"

definition performSearch :: "env \<Rightarrow> string \<Rightarrow> (string \<times> json) list \<Rightarrow> source list traced" where
  "performSearch env topic options =
     (case searchPlugin env of
        Some search \<Rightarrow> (search topic options, [SearchCall topic])
      | None \<Rightarrow> (Inr (fallbackSearch env topic), []))"

text \<open>
  \<open>extractContent\<close> returns an object; \<open>None\<close> stands for a falsy return value, which the
  loop of \<open>research\<close> tests for.
\<close>

definition extractContent :: "source \<Rightarrow> extracted_content option" where
  "extractContent s =
     Some \<lparr>ex_title = strOr (title s) ''Untitled'',
           ex_content = strOr (snippet s) ''Content not available'',
           ex_url = url s\<rparr>"

definition fallbackAnalysis :: analysis_scores where
  "fallbackAnalysis =
     \<lparr>a_relevance = Some 0.8, sentiment = ''neutral'', a_quality = Some 0.7, bias = None,
      readability = None\<rparr>"

definition analyzeContent :: "env \<Rightarrow> extracted_content \<Rightarrow> string \<Rightarrow> analysis_scores option traced" where
  "analyzeContent env c topic =
     (case analysisPlugin env of
        Some analyze \<Rightarrow> (analyze c topic, [AnalysisCall c])
      | None \<Rightarrow> (Inr (Some fallbackAnalysis), []))"

definition fallbackVerification :: verification where
  "fallbackVerification =
     \<lparr>status = ''not_verified'', confidence = 0.5, cross_references = [], fact_checks = [],
      credibility_scores = []\<rparr>"

definition verifyInformation :: "env \<Rightarrow> research_context \<Rightarrow> verification traced" where
  "verifyInformation env researchContext =
     (case verificationPlugin env of
        Some verifyWith \<Rightarrow> (verifyWith researchContext, [VerificationCall])
      | None \<Rightarrow> (Inr fallbackVerification, []))"

text \<open>The loop of \<open>research\<close> over the first \<open>maxSources\<close> search results.\<close>

fun analyzeSources ::
  "env \<Rightarrow> string \<Rightarrow> source list \<Rightarrow> analyzed_result list \<Rightarrow> analyzed_result list traced" where
  "analyzeSources env topic [] acc = (Inr acc, [])"
| "analyzeSources env topic (s # rest) acc =
     (case extractContent s of
        None \<Rightarrow> analyzeSources env topic rest acc
      | Some sourceContent \<Rightarrow>
          (case analyzeContent env sourceContent topic of
             (Inl e, cs) \<Rightarrow> (Inl e, cs)
           | (Inr a, cs) \<Rightarrow>
               (case analyzeSources env topic rest
                       (acc @ [\<lparr>source = s, content = sourceContent, analysis = a\<rparr>]) of
                  (r, cs') \<Rightarrow> (r, cs @ cs'))))"

text \<open>
  \<open>generateAnalysis\<close>. The prompt is built before the \<open>try\<close> block; its template reads
  \<open>r.analysis.relevance\<close> of every result, which throws a \<open>TypeError\<close> when the analysis of
  a result is \<open>undefined\<close>, and that error leaves \<open>generateAnalysis\<close>. The text of the prompt
  is the environment's. Inside the \<open>try\<close> block every error of \<open>queryLLM\<close> is caught.
\<close>

definition undefinedAnalysis :: error where
  "undefinedAnalysis =
     Error (''Cannot read properties of undefined (reading '' @ [CHR 0x27] @ ''relevance''
              @ [CHR 0x27] @ '')'')"

definition generateAnalysis :: "env \<Rightarrow> research_context \<Rightarrow> synthesis traced" where
  "generateAnalysis env researchContext =
     (if \<exists>r \<in> set (ctx_results researchContext). analysis r = None
      then (Inl undefinedAnalysis, [])
      else
        (let analysisPrompt = buildAnalysisPrompt env researchContext in
         case queryLLM env analysisPrompt of
           Inr llmResponse \<Rightarrow>
             (Inr \<lparr>summary = [], keyPoints = []\<rparr>, [SynthesisCall analysisPrompt])
         | Inl e \<Rightarrow>
             (Inr \<lparr>summary = ''Analysis could not be generated'', keyPoints = []\<rparr>,
              [SynthesisCall analysisPrompt])))"

definition templateOf :: "string option \<Rightarrow> string" where
  "templateOf v = (case v of None \<Rightarrow> ''undefined'' | Some s \<Rightarrow> s)"

definition generateCitations :: "env \<Rightarrow> analyzed_result list \<Rightarrow> citation list traced" where
  "generateCitations env rs =
     (case citationPlugin env of
        Some generate \<Rightarrow> (generate rs, [CitationCall])
      | None \<Rightarrow>
          (Inr (map (\<lambda>r. Citation (title (source r)) (url (source r))
                            (''('' @ templateOf (title (source r)) @ '', '' @ currentYear env
                               @ '')'')) rs), []))"

text \<open>
  \<open>generateReport\<close>. Its prompt reads only fields that every result and the analysis of
  the context have; every error of \<open>queryLLM\<close> and of the citation plugin is caught.
\<close>

definition generateReport :: "env \<Rightarrow> research_context \<Rightarrow> report \<times> capability_call list" where
  "generateReport env researchContext =
     (let reportPrompt = buildReportPrompt env researchContext;
          format = map_of (ctx_options researchContext) ''format'';
          failed = \<lparr>rp_content = ''Report could not be generated'', rp_citations = [],
                    rp_format = format\<rparr>
      in case queryLLM env reportPrompt of
           Inl e \<Rightarrow> (failed, [SynthesisCall reportPrompt])
         | Inr llmContent \<Rightarrow>
             (case generateCitations env (ctx_results researchContext) of
                (Inl e, cs) \<Rightarrow> (failed, SynthesisCall reportPrompt # cs)
              | (Inr citations, cs) \<Rightarrow>
                  (\<lparr>rp_content = llmContent, rp_citations = citations, rp_format = format\<rparr>,
                   SynthesisCall reportPrompt # cs)))"

text \<open>
  The stages of \<open>research\<close> between the cache lookup and the bookkeeping: search, the loop
  over the sources, verification when enabled, analysis and report. An error thrown by a
  stage leaves the \<open>try\<close> block at once.
\<close>

definition runStages :: "env \<Rightarrow> string \<Rightarrow> (string \<times> json) list \<Rightarrow> research_context traced" where
  "runStages env topic options =
     (let researchContext =
            \<lparr>ctx_topic = topic, ctx_options = objectSpread (customization env) options,
             ctx_results = [], ctx_sources = [], ctx_analysis = None, ctx_verification = None,
             ctx_report = None\<rparr>
      in case performSearch env topic options of
           (Inl e, c1) \<Rightarrow> (Inl e, c1)
         | (Inr searchResults, c1) \<Rightarrow>
             (let researchContext = researchContext\<lparr>ctx_sources := searchResults\<rparr> in
              case analyzeSources env topic (take (maxSources env) searchResults) [] of
                (Inl e, c2) \<Rightarrow> (Inl e, c1 @ c2)
              | (Inr rs, c2) \<Rightarrow>
                  (let researchContext = researchContext\<lparr>ctx_results := rs\<rparr> in
                   case (if verificationEnabled env
                         then (case verifyInformation env researchContext of
                                 (Inl e, c) \<Rightarrow> (Inl e, c)
                               | (Inr v, c) \<Rightarrow>
                                   (Inr (researchContext\<lparr>ctx_verification := Some v\<rparr>), c))
                         else (Inr researchContext, [])) of
                     (Inl e, c3) \<Rightarrow> (Inl e, c1 @ c2 @ c3)
                   | (Inr researchContext, c3) \<Rightarrow>
                       (case generateAnalysis env researchContext of
                          (Inl e, c4) \<Rightarrow> (Inl e, c1 @ c2 @ c3 @ c4)
                        | (Inr a, c4) \<Rightarrow>
                            (let researchContext = researchContext\<lparr>ctx_analysis := Some a\<rparr>;
                                 (rep, c5) = generateReport env researchContext;
                                 researchContext = researchContext\<lparr>ctx_report := Some rep\<rparr>
                             in (Inr researchContext, c1 @ c2 @ c3 @ c4 @ c5))))))"

text \<open>The bookkeeping after the stages: history, cache, persistence, the final event.\<close>

definition finish :: "env \<Rightarrow> agent \<Rightarrow> string \<Rightarrow> string \<Rightarrow> research_context \<Rightarrow> agent" where
  "finish env st topic cacheKey researchContext =
     (let st = st\<lparr>researchHistory :=
                  researchHistory st @ [\<lparr>h_topic = topic, h_results = researchContext\<rparr>]\<rparr>;
          st = (if cacheEnabled env then setCachedResult env st cacheKey researchContext else st);
          st = (if persistResults env then persistResultsTo env st researchContext else st)
      in emit ResearchComplete st)"

text \<open>
  \<open>research\<close>: the result is the returned context or the error thrown to the caller, with
  the agent's state after the call. The \<open>catch\<close> block emits the error event and throws
  the error again.
\<close>

definition research ::
  "env \<Rightarrow> agent \<Rightarrow> json option \<Rightarrow> (string \<times> json) list \<Rightarrow> (error + research_context) \<times> agent" where
  "research env st topic options =
     (let st = emit ResearchStart st in
      if \<not> truthy topic \<or> typeOf topic \<noteq> ''string''
      then (let e = Error ''Research topic must be a non-empty string''
            in (Inl e, emit (ResearchError (message e)) st))
      else
        (let cacheKey = generateCacheKey (stringOf topic) (JObj options);
             (cachedResult, st) =
               (if cacheEnabled env then getCachedResult env st cacheKey else (None, st))
         in case cachedResult of
              Some c \<Rightarrow> (Inr c, emit (ResearchCacheHit cacheKey) st)
            | None \<Rightarrow>
                (case runStages env (stringOf topic) options of
                   (Inl e, cs) \<Rightarrow>
                     (Inl e, emit (ResearchError (message e)) (st\<lparr>invoked := invoked st @ cs\<rparr>))
                 | (Inr researchContext, cs) \<Rightarrow>
                     (Inr researchContext,
                      finish env (st\<lparr>invoked := invoked st @ cs\<rparr>) (stringOf topic) cacheKey
                        researchContext))))"

section \<open>Example inputs\<close>

text \<open>Two results of different engines with the same title and different urls.\<close>

definition exampleGoogle :: source where
  "exampleGoogle =
     \<lparr>ident = ''1'', title = Some ''Climate report'', url = ''https://a.example.com/report'',
      snippet = None, origin = ''google'', quality = 0.8, relevance = 0.9\<rparr>"

definition exampleArxiv :: source where
  "exampleArxiv =
     \<lparr>ident = ''2'', title = Some ''Climate report'', url = ''https://b.example.org/paper'',
      snippet = None, origin = ''arxiv'', quality = 0.95, relevance = 0.8\<rparr>"

text \<open>A single source whose snippet states the same sentence twice.\<close>

definition exampleRepeating :: analyzed_result where
  "exampleRepeating =
     \<lparr>source = \<lparr>ident = ''3'', title = Some ''Sea level news'',
                 url = ''https://news.example.net/sea'',
                 snippet = Some ''Sea levels are rising. Sea levels are rising.'',
                 origin = ''google'', quality = 0.8, relevance = 0.9\<rparr>,
      content = \<lparr>ex_title = ''Sea level news'',
                  ex_content = ''Sea levels are rising. Sea levels are rising.'',
                  ex_url = ''https://news.example.net/sea''\<rparr>,
      analysis = None\<rparr>"

text \<open>A source of the top-level domain \<open>net\<close> whose host name contains \<open>edu\<close>.\<close>

definition exampleEducation :: analyzed_result where
  "exampleEducation =
     \<lparr>source = \<lparr>ident = ''4'', title = Some ''Course notes'',
                 url = ''https://education.example.net/notes'',
                 snippet = Some ''Notes'', origin = ''google'', quality = 0.8,
                 relevance = 0.9\<rparr>,
      content = \<lparr>ex_title = ''Course notes'', ex_content = ''Notes'',
                  ex_url = ''https://education.example.net/notes''\<rparr>,
      analysis = None\<rparr>"





text \<open>A verification object with three cross-references and an average credibility of 0.8.\<close>

definition exampleCrossRef :: cross_reference where
  "exampleCrossRef = \<lparr>cr_claim = ''sea levels are rising'', cr_sources = [], cr_count = 2\<rparr>"

definition exampleVerification :: verification where
  "exampleVerification =
     \<lparr>status = ''completed'', confidence = 0,
      cross_references = [exampleCrossRef, exampleCrossRef, exampleCrossRef],
      fact_checks = [],
      credibility_scores =
        [\<lparr>ce_source = Some ''A'', ce_url = ''https://a.example.org'', credibility = 0.9\<rparr>,
         \<lparr>ce_source = Some ''B'', ce_url = ''https://b.example.com'', credibility = 0.7\<rparr>]\<rparr>"

text \<open>The same two options, written in different order.\<close>

definition exampleOptionsA :: "(string \<times> json) list" where
  "exampleOptionsA = [(''tone'', JStr ''casual''), (''depth'', JStr ''brief'')]"

definition exampleOptionsB :: "(string \<times> json) list" where
  "exampleOptionsB = [(''depth'', JStr ''brief''), (''tone'', JStr ''casual'')]"

text \<open>
  An environment with the default configuration values, no plugin loaded, a language
  model without API key, and a writable file system. The clock stands at 100000 seconds.
\<close>

definition exampleEnv :: env where
  "exampleEnv =
     \<lparr>maxSources = 10, verificationEnabled = True, cacheEnabled = True, cacheTtl = 86400,
      persistResults = True,
      customization = [(''persona'', JStr ''academic-researcher''), (''format'', JStr ''report'')],
      searchPlugin = None, analysisPlugin = None, verificationPlugin = None,
      citationPlugin = None,
      queryLLM = (\<lambda>prompt. Inl (Error ''API key is required for LLM queries'')),
      buildAnalysisPrompt = (\<lambda>c. ''Analyze '' @ ctx_topic c),
      buildReportPrompt = (\<lambda>c. ''Report on '' @ ctx_topic c),
      dateNow = 100000000, currentYear = ''2026'', uuidv4 = ''uuid-1'',
      cacheFilePath = (\<lambda>k. ''cache/'' @ k @ ''.json''),
      resultFilePath = ''results/research.json'', writable = (\<lambda>p. True)\<rparr>"

text \<open>
  Plugins that throw (the analysis plugin only on the second example result), and a
  search plugin that returns the two example results.
\<close>

definition throwingSearch :: "string \<Rightarrow> (string \<times> json) list \<Rightarrow> error + source list" where
  "throwingSearch t opts = Inl (Error ''search failed'')"

definition workingSearch :: "string \<Rightarrow> (string \<times> json) list \<Rightarrow> error + source list" where
  "workingSearch t opts = Inr [exampleGoogle, exampleArxiv]"

definition laterThrowingAnalysis :: "extracted_content \<Rightarrow> string \<Rightarrow> error + analysis_scores option" where
  "laterThrowingAnalysis c t =
     (if ex_url c = url exampleArxiv then Inl (Error ''analysis failed'')
      else Inr (Some fallbackAnalysis))"

definition throwingVerification :: "research_context \<Rightarrow> error + verification" where
  "throwingVerification c = Inl (Error ''verification failed'')"

text \<open>Two research contexts, as earlier calls on the topic \<open>ai\<close> could have cached them.\<close>

definition exampleContext :: research_context where
  "exampleContext =
     \<lparr>ctx_topic = ''ai'', ctx_options = [], ctx_results = [], ctx_sources = [exampleGoogle],
      ctx_analysis = None, ctx_verification = None, ctx_report = None\<rparr>"

definition exampleContextOld :: research_context where
  "exampleContextOld =
     \<lparr>ctx_topic = ''ai'', ctx_options = [], ctx_results = [], ctx_sources = [],
      ctx_analysis = None, ctx_verification = None, ctx_report = None\<rparr>"

text \<open>An agent that has done nothing yet.\<close>

definition exampleAgent :: agent where
  "exampleAgent =
     \<lparr>cache = Map.empty, researchHistory = [], cacheFiles = Map.empty, resultFiles = [],
      events = [], invoked = []\<rparr>"

text \<open>
  The same agent with a valid cache file for the key \<open>ai_{}\<close>, written one second before
  the clock of the example environment, and nothing in memory.
\<close>

definition exampleAgentCold :: agent where
  "exampleAgentCold =
     exampleAgent\<lparr>cacheFiles :=
       [''cache/ai_{}.json'' \<mapsto> Parsed \<lparr>data = exampleContext, timestamp = 99999000\<rparr>]\<rparr>"

text \<open>
  The agent with that cache file and, in memory, an entry for the same key written at
  time 0, which has expired.
\<close>

definition exampleAgentStale :: agent where
  "exampleAgentStale =
     exampleAgentCold\<lparr>cache := [''ai_{}'' \<mapsto> \<lparr>data = exampleContextOld, timestamp = 0\<rparr>]\<rparr>"

text \<open>The example environment with plugins loaded.\<close>

definition exampleEnvSearch :: env where
  "exampleEnvSearch = exampleEnv\<lparr>searchPlugin := Some workingSearch\<rparr>"

definition exampleEnvSearchThrows :: env where
  "exampleEnvSearchThrows = exampleEnv\<lparr>searchPlugin := Some throwingSearch\<rparr>"

definition exampleEnvAnalysisThrows :: env where
  "exampleEnvAnalysisThrows =
     exampleEnv\<lparr>searchPlugin := Some workingSearch, analysisPlugin := Some laterThrowingAnalysis\<rparr>"

definition exampleEnvVerificationThrows :: env where
  "exampleEnvVerificationThrows =
     exampleEnv\<lparr>searchPlugin := Some workingSearch,
                verificationPlugin := Some throwingVerification\<rparr>"

section \<open>Properties of deduplication\<close>

lemma in_image_conv: "(y \<in> f ` S) = (\<exists>k \<in> S. f k = y)"
  by auto

lemma seen_conv:
  "(f r \<in> {} \<union> f ` S \<or> g r \<in> {} \<union> g ` S) = (\<exists>k \<in> S. f k = f r \<or> g k = g r)"
  by (simp add: image_iff eq_commute [of "f r"] eq_commute [of "g r"] bex_disj_distrib)

lemma deduplicateLoop_fresh:
  "r \<in> set (deduplicateLoop U T rs) \<Longrightarrow> url r \<notin> U \<and> title r \<notin> T"
proof (induction rs arbitrary: U T)
  case Nil
  then show ?case by simp
next
  case (Cons a rs)
  show ?case
  proof (cases "url a \<in> U \<or> title a \<in> T")
    case True
    then have "deduplicateLoop U T (a # rs) = deduplicateLoop U T rs" by simp
    with Cons.prems have "r \<in> set (deduplicateLoop U T rs)" by simp
    then show ?thesis by (rule Cons.IH)
  next
    case False
    let ?rest = "deduplicateLoop (insert (url a) U) (insert (title a) T) rs"
    from False have "deduplicateLoop U T (a # rs) = a # ?rest" by simp
    with Cons.prems have "r = a \<or> r \<in> set ?rest" by simp
    then show ?thesis
    proof
      assume "r = a"
      with False show ?thesis by simp
    next
      assume "r \<in> set ?rest"
      from Cons.IH [OF this] show ?thesis by simp
    qed
  qed
qed

lemma deduplicateLoop_distinct:
  "distinct (map url (deduplicateLoop U T rs)) \<and> distinct (map title (deduplicateLoop U T rs))"
proof (induction rs arbitrary: U T)
  case Nil
  then show ?case by simp
next
  case (Cons a rs)
  show ?case
  proof (cases "url a \<in> U \<or> title a \<in> T")
    case True
    then have "deduplicateLoop U T (a # rs) = deduplicateLoop U T rs" by simp
    with Cons.IH [of U T] show ?thesis by simp
  next
    case False
    let ?rest = "deduplicateLoop (insert (url a) U) (insert (title a) T) rs"
    have step: "deduplicateLoop U T (a # rs) = a # ?rest"
      using False by simp
    have later: "url x \<noteq> url a \<and> title x \<noteq> title a" if "x \<in> set ?rest" for x
      using deduplicateLoop_fresh [OF that] by simp
    have "url a \<notin> url ` set ?rest" "title a \<notin> title ` set ?rest"
      unfolding in_image_conv using later by blast+
    moreover have "distinct (map url ?rest)" "distinct (map title ?rest)"
      using Cons.IH [of "insert (url a) U" "insert (title a) T"] by simp_all
    ultimately show ?thesis
      unfolding step by simp
  qed
qed

lemma deduplicateLoop_subseq: "subseq (deduplicateLoop U T rs) rs"
  by (induction rs arbitrary: U T) auto

lemma deduplicateLoop_snoc:
  "deduplicateLoop U T (rs @ [r]) =
     deduplicateLoop U T rs @
       (if url r \<in> U \<union> url ` set (deduplicateLoop U T rs)
           \<or> title r \<in> T \<union> title ` set (deduplicateLoop U T rs)
        then [] else [r])"
proof (induction rs arbitrary: U T)
  case Nil
  show ?case by simp
next
  case (Cons a rs)
  show ?case
  proof (cases "url a \<in> U \<or> title a \<in> T")
    case True
    then show ?thesis using Cons.IH [of U T] by simp
  next
    case False
    then show ?thesis
      using Cons.IH [of "insert (url a) U" "insert (title a) T"] by simp
  qed
qed

text \<open>
  C4 (as the code has it). Deduplication is by url OR title: running over the results in
  order, a result is retained exactly when no result retained before it has the same url
  or the same title. The retained results are a subsequence of the input (insertion order
  kept, first occurrence wins) and have pairwise different urls and pairwise different
  titles.
\<close>

theorem deduplicateResults_first_wins:
  "deduplicateResults (rs @ [r]) =
     deduplicateResults rs @
       (if \<exists>k \<in> set (deduplicateResults rs). url k = url r \<or> title k = title r
        then [] else [r])
   \<and> subseq (deduplicateResults rs) rs
   \<and> distinct (map url (deduplicateResults rs))
   \<and> distinct (map title (deduplicateResults rs))"
proof -
  let ?kept = "deduplicateLoop {} {} rs"
  have "deduplicateLoop {} {} (rs @ [r]) =
     ?kept @ (if \<exists>k \<in> set ?kept. url k = url r \<or> title k = title r then [] else [r])"
    by (simp only: deduplicateLoop_snoc seen_conv)
  moreover have "subseq ?kept rs"
    by (rule deduplicateLoop_subseq)
  moreover have "distinct (map url ?kept)" and "distinct (map title ?kept)"
    using deduplicateLoop_distinct [of "{}" "{}" rs] by simp_all
  ultimately show ?thesis
    unfolding deduplicateResults_def by simp
qed


theorem deduplicateResults_first_wins_witness:
  "deduplicateResults ([exampleGoogle] @ [exampleArxiv]) = [exampleGoogle]
   \<and> deduplicateResults ([] @ [exampleGoogle]) = [exampleGoogle]"
  using deduplicateResults_first_wins [of "[exampleGoogle]" exampleArxiv]
    deduplicateResults_first_wins [of "[]" exampleGoogle]
  by (simp add: deduplicateResults_def exampleGoogle_def exampleArxiv_def)

text \<open>
  C4 as the specification states it fails: the two example results differ in their
  (url, title) pairs, since the urls differ, and yet only the first one is retained,
  because they share the title.
\<close>

theorem deduplicateResults_pair_counterexample:
  "(url exampleGoogle, title exampleGoogle) \<noteq> (url exampleArxiv, title exampleArxiv)
   \<and> deduplicateResults [exampleGoogle, exampleArxiv] = [exampleGoogle]"
  by (simp add: deduplicateResults_def exampleGoogle_def exampleArxiv_def)

section \<open>Properties of sentence splitting and claim extraction\<close>

lemma splitRuns_nonempty: "splitRuns d s \<noteq> []"
  by (induction s) (auto split: list.splits)

lemma splitRuns_no_delim: "seg \<in> set (splitRuns d s) \<Longrightarrow> c \<in> set seg \<Longrightarrow> \<not> d c"
proof (induction s arbitrary: seg)
  case Nil
  then show ?case by simp
next
  case (Cons a s)
  show ?case
  proof (cases "d a")
    case True
    with Cons.prems have "seg = [] \<or> seg \<in> set (splitRuns d s)"
      by (auto split: if_splits)
    with Cons.prems(2) Cons.IH show ?thesis by auto
  next
    case False
    obtain g gs where sp: "splitRuns d s = g # gs"
      using splitRuns_nonempty [of d s] by (cases "splitRuns d s") auto
    with False Cons.prems have "seg = a # g \<or> seg \<in> set gs" by auto
    then show ?thesis
    proof
      assume "seg = a # g"
      with Cons.prems(2) have "c = a \<or> c \<in> set g" by auto
      then show ?thesis using False Cons.IH [of g] sp by auto
    next
      assume "seg \<in> set gs"
      then show ?thesis using Cons.IH [of seg] Cons.prems(2) sp by auto
    qed
  qed
qed

lemma splitRuns_concat: "concat (splitRuns d s) = filter (\<lambda>c. \<not> d c) s"
  by (induction s) (auto split: list.splits)

lemma splitRuns_delim_first:
  "d x \<Longrightarrow> splitRuns d (x # b) = [] # splitRuns d (dropWhile d b)"
proof (induction b arbitrary: x)
  case Nil
  then show ?case by (simp add: startsWith_def)
next
  case (Cons y b)
  show ?case
  proof (cases "d y")
    case True
    from Cons.IH [OF True] Cons.prems True show ?thesis
      by (simp add: startsWith_def)
  next
    case False
    with Cons.prems show ?thesis by (simp add: startsWith_def)
  qed
qed

lemma splitRuns_plain: "(\<forall>c \<in> set a. \<not> d c) \<Longrightarrow> splitRuns d a = [a]"
  by (induction a) auto

lemma splitRuns_cut:
  "(\<forall>c \<in> set a. \<not> d c) \<Longrightarrow> d x \<Longrightarrow> splitRuns d (a @ x # b) = a # splitRuns d (dropWhile d b)"
proof (induction a)
  case Nil
  then show ?case using splitRuns_delim_first [of d x b] by simp
next
  case (Cons c a)
  then show ?case by simp
qed

lemma dropWhile_id: "s = [] \<or> \<not> P (hd s) \<Longrightarrow> dropWhile P s = s"
  by (cases s) auto

lemma trim_idem: "trim (trim s) = trim s"
proof -
  define t where "t = dropWhile isSpace s"
  define u where "u = dropWhile isSpace (rev t)"
  have tr: "trim s = rev u"
    by (simp add: trim_def t_def u_def)
  have A: "dropWhile isSpace (rev u) = rev u"
  proof (cases "u = []")
    case True
    then show ?thesis by simp
  next
    case False
    have "rev t = takeWhile isSpace (rev t) @ u"
      by (simp add: u_def)
    then have "rev (rev t) = rev (takeWhile isSpace (rev t) @ u)"
      by simp
    then have t_eq: "t = rev u @ rev (takeWhile isSpace (rev t))"
      by simp
    from False have "rev u \<noteq> []" by simp
    with t_eq have "hd t = hd (rev u)"
      by (metis hd_append2)
    moreover have "t \<noteq> []"
      using t_eq \<open>rev u \<noteq> []\<close> by auto
    then have "\<not> isSpace (hd t)"
      unfolding t_def by (rule hd_dropWhile)
    ultimately show ?thesis
      using \<open>rev u \<noteq> []\<close> by (intro dropWhile_id) simp
  qed
  have B: "dropWhile isSpace u = u"
    by (simp add: u_def)
  have "trim (rev u) = rev (dropWhile isSpace (rev (dropWhile isSpace (rev u))))"
    by (simp add: trim_def)
  also have "\<dots> = rev u"
    by (simp add: A B)
  finally show ?thesis
    by (simp add: tr)
qed

lemma trim_spaces:
  assumes "\<forall>c \<in> set l. isSpace c" and "\<forall>c \<in> set r. isSpace c"
  shows "trim (l @ r) = []"
proof -
  have "\<forall>c \<in> set (l @ r). isSpace c"
    using assms by auto
  then have dropped: "dropWhile isSpace (l @ r) = []"
    by (rule iffD2 [OF dropWhile_eq_Nil_conv])
  show ?thesis
    unfolding trim_def dropped by simp
qed

lemma trim_core:
  assumes "\<forall>c \<in> set l. isSpace c" and "\<forall>c \<in> set r. isSpace c"
    and "m \<noteq> []" and "\<not> isSpace (hd m)" and "\<not> isSpace (last m)"
  shows "trim (l @ m @ r) = m"
proof -
  have "dropWhile isSpace (l @ m @ r) = dropWhile isSpace (m @ r)"
    by (rule dropWhile_append2) (use assms(1) in blast)
  also have "\<dots> = m @ r"
    using assms(3,4) by (cases m) simp_all
  finally have front: "dropWhile isSpace (l @ m @ r) = m @ r" .
  have "dropWhile isSpace (rev (m @ r)) = dropWhile isSpace (rev r @ rev m)"
    by simp
  also have "\<dots> = dropWhile isSpace (rev m)"
    by (rule dropWhile_append2) (use assms(2) in simp)
  also have "\<dots> = rev m"
    using assms(3,5) by (intro dropWhile_id) (simp add: hd_rev)
  finally have "dropWhile isSpace (rev (m @ r)) = rev m" .
  then show ?thesis
    unfolding trim_def front by simp
qed

lemma extractSentences_plain:
  assumes "\<forall>c \<in> set a. \<not> isSentenceDelim c"
  shows "extractSentences a = (if 10 < length (trim a) then [trim a] else [])"
  unfolding extractSentences_def splitRuns_plain [OF assms] by simp

lemma extractSentences_cut:
  assumes "\<forall>c \<in> set a. \<not> isSentenceDelim c" and "isSentenceDelim x"
  shows "extractSentences (a @ x # b) =
     (if 10 < length (trim a) then [trim a] else [])
       @ extractSentences (dropWhile isSentenceDelim b)"
  unfolding extractSentences_def splitRuns_cut [OF assms] by simp

text \<open>
  C7 (as the code has it). Claim extraction cuts the text at the maximal runs of \<open>.\<close>,
  \<open>!\<close> and \<open>?\<close>, trims every segment and keeps, in order, exactly the trimmed segments
  of more than 10 characters. A text without delimiter has one segment. Otherwise the
  text up to the first delimiter is the first segment, and extraction goes on behind the
  run of delimiters that starts there. A segment contributes its trimmed text when that
  has more than 10 characters, and nothing otherwise. The trimmed text of a segment is
  the segment without the white space at its two ends.
\<close>

theorem extractSentences_longer_than_10:
  "((\<forall>c \<in> set a. \<not> isSentenceDelim c) \<longrightarrow>
      extractSentences a = (if 10 < length (trim a) then [trim a] else []))
   \<and> ((\<forall>c \<in> set a. \<not> isSentenceDelim c) \<and> isSentenceDelim x \<longrightarrow>
      extractSentences (a @ x # b) =
        (if 10 < length (trim a) then [trim a] else [])
          @ extractSentences (dropWhile isSentenceDelim b))
   \<and> ((\<forall>c \<in> set l. isSpace c) \<and> (\<forall>c \<in> set r. isSpace c)
        \<and> (m = [] \<or> \<not> isSpace (hd m) \<and> \<not> isSpace (last m)) \<longrightarrow>
      trim (l @ m @ r) = m)"
proof -
  have "trim (l @ m @ r) = m"
    if "\<forall>c \<in> set l. isSpace c" "\<forall>c \<in> set r. isSpace c"
      "m = [] \<or> \<not> isSpace (hd m) \<and> \<not> isSpace (last m)"
  proof (cases "m = []")
    case True
    with that(1,2) show ?thesis
      by (simp add: trim_spaces)
  next
    case False
    with that show ?thesis
      by (intro trim_core) simp_all
  qed
  then show ?thesis
    using extractSentences_plain [of a] extractSentences_cut [of a x b]
    by blast
qed

theorem extractSentences_longer_than_10_witness:
  "extractSentences ''abcdefghijk'' = [''abcdefghijk'']
   \<and> extractSentences ''0123456789'' = []
   \<and> extractSentences (''0123456789'' @ CHR ''.'' # '' abcdefghijk'') = [''abcdefghijk'']
   \<and> trim ('' '' @ ''abcdefghijk'' @ []) = ''abcdefghijk''"
proof -
  note exact = extractSentences_longer_than_10
    [where x = "CHR ''.''" and l = "'' ''" and r = "[]" and m = "''abcdefghijk''"]
  have plain: "\<forall>c \<in> set ''abcdefghijk''. \<not> isSentenceDelim c"
    "\<forall>c \<in> set ''0123456789''. \<not> isSentenceDelim c"
    "\<forall>c \<in> set '' abcdefghijk''. \<not> isSentenceDelim c"
    by (simp_all add: isSentenceDelim_def)
  have delim: "isSentenceDelim CHR ''.''"
    by (simp add: isSentenceDelim_def)
  have spaces: "\<forall>c \<in> set '' ''. isSpace c" "\<forall>c \<in> set []. isSpace c"
    by (simp_all add: isSpace_def)
  have core: "''abcdefghijk'' = []
      \<or> \<not> isSpace (hd ''abcdefghijk'') \<and> \<not> isSpace (last ''abcdefghijk'')"
    by (simp add: isSpace_def)
  have t3: "trim ('' '' @ ''abcdefghijk'' @ []) = ''abcdefghijk''"
    using exact [of "[]" "[]"] spaces core by (simp only: simp_thms)
  have t0: "trim ''abcdefghijk'' = ''abcdefghijk''" "trim ''0123456789'' = ''0123456789''"
    "dropWhile isSentenceDelim '' abcdefghijk'' = '' abcdefghijk''"
    "trim '' abcdefghijk'' = ''abcdefghijk''"
    by (simp_all add: trim_def isSpace_def isSentenceDelim_def)
  have e1: "extractSentences ''abcdefghijk'' = [''abcdefghijk'']"
    using exact [of "''abcdefghijk''" "[]"] plain(1) by (simp add: t0 del: append.simps)
  have e2: "extractSentences ''0123456789'' = []"
    using exact [of "''0123456789''" "[]"] plain(2) by (simp add: t0 del: append.simps)
  have e3: "extractSentences '' abcdefghijk'' = [''abcdefghijk'']"
    using exact [of "'' abcdefghijk''" "[]"] plain(3) by (simp add: t0 del: append.simps)
  have cut: "extractSentences (''0123456789'' @ CHR ''.'' # '' abcdefghijk'') =
      (if 10 < length (trim ''0123456789'') then [trim ''0123456789''] else [])
        @ extractSentences (dropWhile isSentenceDelim '' abcdefghijk'')"
    using exact [of "''0123456789''" "'' abcdefghijk''"] plain(2) delim
    by (simp only: simp_thms)
  have e4: "extractSentences (''0123456789'' @ CHR ''.'' # '' abcdefghijk'') = [''abcdefghijk'']"
    unfolding cut t0 e3 by simp
  from e1 e2 e4 t3 show ?thesis
    by (intro conjI)
qed

text \<open>
  C7 as the specification states it fails at the boundary: a segment of exactly 10
  characters is discarded, a segment of 11 characters is the shortest one retained.
\<close>

theorem extractSentences_ten_chars_counterexample:
  "length ''0123456789'' = 10
   \<and> splitRuns isSentenceDelim ''0123456789.abcdefghijk'' = [''0123456789'', ''abcdefghijk'']
   \<and> extractSentences ''0123456789.abcdefghijk'' = [''abcdefghijk'']"
  by (simp add: extractSentences_def trim_def isSentenceDelim_def isSpace_def startsWith_def)

section \<open>Properties of the verification plugin\<close>

text \<open>
  C3 (the code at the failing input). One source whose text states a sentence twice: the
  claim is listed as a cross-reference with count 2, both occurrences being of that one
  source, although it appears under a single source.
\<close>

theorem performCrossReferencing_single_source_listed:
  "performCrossReferencing [exampleRepeating] =
     [\<lparr>cr_claim = ''sea levels are rising'',
       cr_sources =
         [\<lparr>occ_source = Some ''Sea level news'', occ_url = ''https://news.example.net/sea'',
           occ_content = ''Sea levels are rising''\<rparr>,
          \<lparr>occ_source = Some ''Sea level news'', occ_url = ''https://news.example.net/sea'',
           occ_content = ''Sea levels are rising''\<rparr>],
       cr_count = 2\<rparr>]"
  by code_simp

lemma foldl_add_credibility:
  "foldl (\<lambda>sum score. sum + credibility score) a xs = a + sum_list (map credibility xs)"
  by (induction xs arbitrary: a) auto

lemma calculateOverallConfidence_closed:
  "calculateOverallConfidence v =
     0.6 * min 1 (real (length (cross_references v)) * 0.3)
     + 0.4 * (if credibility_scores v = [] then 0.5
              else sum_list (map credibility (credibility_scores v))
                     / real (length (credibility_scores v)))"
  by (simp add: calculateOverallConfidence_def Let_def foldl_add_credibility)

lemma verify_fields:
  "cross_references (verify results) = performCrossReferencing results"
  "credibility_scores (verify results) = calculateCredibility results"
  "confidence (verify results) = calculateOverallConfidence (verify results)"
  by (simp_all add: verify_def Let_def calculateOverallConfidence_def)

lemma verify_Nil:
  "verify [] = \<lparr>status = ''completed'', confidence = 0.2, cross_references = [],
                fact_checks = [], credibility_scores = []\<rparr>"
  by (simp add: verify_def calculateOverallConfidence_def performCrossReferencing_def
      collectClaims_def performFactChecking_def calculateCredibility_def)

text \<open>
  C5. The overall confidence is 0.6 times min(1, 0.3 times the number of
  cross-references) plus 0.4 times the mean of the credibility scores, the mean being 0.5
  when there are no scores. It is the confidence field of every verification outcome.
  When the outcome has no credibility scores (the result set is empty), the outcome is a
  value with confidence 0.2; with three cross-references and an average credibility of
  0.8 the confidence is 0.86. Numbers are real numbers here, without the rounding of
  IEEE doubles.
\<close>

theorem calculateOverallConfidence_formula:
  "calculateOverallConfidence v =
     0.6 * min 1 (real (length (cross_references v)) * 0.3)
     + 0.4 * (if credibility_scores v = [] then 0.5
              else sum_list (map credibility (credibility_scores v))
                     / real (length (credibility_scores v)))
   \<and> confidence (verify results) = calculateOverallConfidence (verify results)
   \<and> (credibility_scores (verify results) = [] \<longrightarrow>
        verify results = \<lparr>status = ''completed'', confidence = 0.2, cross_references = [],
                           fact_checks = [], credibility_scores = []\<rparr>)
   \<and> (length (cross_references v) = 3 \<and> credibility_scores v \<noteq> []
        \<and> sum_list (map credibility (credibility_scores v))
              / real (length (credibility_scores v)) = 0.8
        \<longrightarrow> calculateOverallConfidence v = 0.86)"
proof -
  have empty: "verify results = \<lparr>status = ''completed'', confidence = 0.2,
      cross_references = [], fact_checks = [], credibility_scores = []\<rparr>"
    if "credibility_scores (verify results) = []"
  proof -
    from that have "calculateCredibility results = []"
      by (simp add: verify_fields)
    then have "results = []"
      by (simp add: calculateCredibility_def)
    then show ?thesis
      by (simp only: verify_Nil)
  qed
  have example: "calculateOverallConfidence v = 0.86"
    if "length (cross_references v) = 3" "credibility_scores v \<noteq> []"
      "sum_list (map credibility (credibility_scores v))
         / real (length (credibility_scores v)) = 0.8"
    using that by (simp add: calculateOverallConfidence_closed)
  show ?thesis
    using empty example calculateOverallConfidence_closed [of v] verify_fields(3) [of results]
    by blast
qed

theorem calculateOverallConfidence_formula_witness:
  "calculateOverallConfidence exampleVerification = 0.86
   \<and> credibility_scores (verify []) = []
   \<and> confidence (verify []) = 0.2"
  using calculateOverallConfidence_formula [of exampleVerification "[]"]
  by (simp add: exampleVerification_def verify_Nil)







text \<open>
  The domain test at a url whose top-level domain is \<open>net\<close> and whose host name contains
  \<open>edu\<close>: the test is on the whole url, and the source gets the bonus of an academic
  domain.
\<close>

lemma credibilityScore_whole_url_tested:
  "topLevelDomain (url (source exampleEducation)) = ''net''
   \<and> credibilityScore exampleEducation = 0.7"
proof -
  have tld: "topLevelDomain ''https://education.example.net/notes'' = ''net''"
    by code_simp
  have edu: "str_includes ''https://education.example.net/notes'' ''edu''"
    by code_simp
  show ?thesis
    using tld edu
    by (simp add: exampleEducation_def credibilityScore_def
        domainStep_def qualityStep_def biasStep_def readabilityStep_def Let_def)
qed




section \<open>Properties of the cache key\<close>

lemma same_order_equal:
  assumes "distinct (map fst a)" "set a = set b" "map fst a = map fst b"
  shows "a = b"
proof (rule nth_equalityI)
  from assms(3) show len: "length a = length b"
    by (metis length_map)
  fix i
  assume i: "i < length a"
  then have "a ! i \<in> set b"
    using assms(2) nth_mem by blast
  then obtain j where j: "j < length b" "b ! j = a ! i"
    by (auto simp: in_set_conv_nth)
  have "map fst a ! j = fst (b ! j)"
    using assms(3) j(1) by simp
  also have "\<dots> = map fst a ! i"
    using j(2) i by simp
  finally have "j = i"
    by (metis assms(1) i j(1) len length_map nth_eq_iff_index_eq)
  with j(2) show "a ! i = b ! i"
    by simp
qed

lemma digitChar_inj: "i < 16 \<Longrightarrow> j < 16 \<Longrightarrow> digitChar i = digitChar j \<Longrightarrow> i = j"
proof -
  assume "i < 16" "j < 16" "digitChar i = digitChar j"
  moreover have "distinct ''0123456789abcdef''"
    by simp
  moreover have "length ''0123456789abcdef'' = 16"
    by simp
  ultimately show ?thesis
    unfolding digitChar_def by (metis nth_eq_iff_index_eq)
qed

lemma hex_pair_inj:
  assumes "n < 32" "m < 32"
    and "digitChar (n div 16) = digitChar (m div 16)"
    and "digitChar (n mod 16) = digitChar (m mod 16)"
  shows "n = m"
proof -
  have "n div 16 = m div 16"
    using assms(1,2,3) by (intro digitChar_inj) simp_all
  moreover have "n mod 16 = m mod 16"
    using assms(4) by (intro digitChar_inj) simp_all
  ultimately show ?thesis
    by (metis div_mult_mod_eq)
qed

text \<open>
  The three shapes of an escaped character: a two-character escape, a \<open>\u00XX\<close> escape
  for the other control characters, and the character itself.
\<close>

lemma quoteChar_escaped:
  "c \<in> set [CHR 0x22, CHR 0x5C, CHR 0x08, CHR 0x09, CHR 0x0A, CHR 0x0C, CHR 0x0D] \<Longrightarrow>
   \<exists>e. quoteChar c = [CHR 0x5C, e] \<and> e \<noteq> CHR ''u''"
  by (auto simp: quoteChar_def)

lemma quoteChar_escaped_inj:
  "c \<in> set [CHR 0x22, CHR 0x5C, CHR 0x08, CHR 0x09, CHR 0x0A, CHR 0x0C, CHR 0x0D] \<Longrightarrow>
   d \<in> set [CHR 0x22, CHR 0x5C, CHR 0x08, CHR 0x09, CHR 0x0A, CHR 0x0C, CHR 0x0D] \<Longrightarrow>
   quoteChar c = quoteChar d \<Longrightarrow> c = d"
  by (auto simp: quoteChar_def)

lemma quoteChar_control:
  "c \<notin> set [CHR 0x22, CHR 0x5C, CHR 0x08, CHR 0x09, CHR 0x0A, CHR 0x0C, CHR 0x0D] \<Longrightarrow>
   (of_char c :: nat) < 32 \<Longrightarrow>
   quoteChar c = [CHR 0x5C, CHR ''u'', CHR ''0'', CHR ''0'',
                  digitChar (of_char c div 16), digitChar (of_char c mod 16)]"
  by (simp add: quoteChar_def)

lemma quoteChar_plain:
  "c \<notin> set [CHR 0x22, CHR 0x5C, CHR 0x08, CHR 0x09, CHR 0x0A, CHR 0x0C, CHR 0x0D] \<Longrightarrow>
   \<not> (of_char c :: nat) < 32 \<Longrightarrow>
   quoteChar c = [c] \<and> c \<noteq> CHR 0x5C \<and> c \<noteq> CHR 0x22"
  by (simp add: quoteChar_def)

lemma quoteChar_prefix_free:
  assumes eq: "quoteChar c @ x = quoteChar d @ y"
  shows "c = d \<and> x = y"
proof (cases "c \<in> set [CHR 0x22, CHR 0x5C, CHR 0x08, CHR 0x09, CHR 0x0A, CHR 0x0C, CHR 0x0D]")
  case c: True
  from quoteChar_escaped [OF c] obtain e where qc: "quoteChar c = [CHR 0x5C, e]"
    and e: "e \<noteq> CHR ''u''"
    by blast
  show ?thesis
  proof (cases "d \<in> set [CHR 0x22, CHR 0x5C, CHR 0x08, CHR 0x09, CHR 0x0A, CHR 0x0C, CHR 0x0D]")
    case d: True
    from quoteChar_escaped [OF d] obtain e' where qd: "quoteChar d = [CHR 0x5C, e']"
      by blast
    from eq have "e = e'" "x = y"
      unfolding qc qd by simp_all
    then have "quoteChar c = quoteChar d"
      unfolding qc qd by simp
    with quoteChar_escaped_inj [OF c d] \<open>x = y\<close> show ?thesis
      by simp
  next
    case d: False
    show ?thesis
    proof (cases "(of_char d :: nat) < 32")
      case True
      from eq have "e = CHR ''u''"
        unfolding qc quoteChar_control [OF d True] by simp
      with e show ?thesis
        by simp
    next
      case False
      from quoteChar_plain [OF d False] have qd: "quoteChar d = [d]" and "d \<noteq> CHR 0x5C"
        by simp_all
      with eq show ?thesis
        unfolding qc qd by simp
    qed
  qed
next
  case c: False
  show ?thesis
  proof (cases "(of_char c :: nat) < 32")
    case small: True
    note qc = quoteChar_control [OF c small]
    show ?thesis
    proof (cases "d \<in> set [CHR 0x22, CHR 0x5C, CHR 0x08, CHR 0x09, CHR 0x0A, CHR 0x0C, CHR 0x0D]")
      case d: True
      from quoteChar_escaped [OF d] obtain e' where qd: "quoteChar d = [CHR 0x5C, e']"
        and e': "e' \<noteq> CHR ''u''"
        by blast
      from eq have "e' = CHR ''u''"
        unfolding qc qd by simp
      with e' show ?thesis
        by simp
    next
      case d: False
      show ?thesis
      proof (cases "(of_char d :: nat) < 32")
        case True
        from eq have digits:
          "digitChar (of_char c div 16) = digitChar (of_char d div 16)"
          "digitChar (of_char c mod 16) = digitChar (of_char d mod 16)" and rest: "x = y"
          unfolding qc quoteChar_control [OF d True] by simp_all
        have "(of_char c :: nat) = of_char d"
          using small True digits by (rule hex_pair_inj)
        then have "c = d"
          by simp
        with rest show ?thesis
          by simp
      next
        case False
        from quoteChar_plain [OF d False] have qd: "quoteChar d = [d]" and "d \<noteq> CHR 0x5C"
          by simp_all
        with eq show ?thesis
          unfolding qc qd by simp
      qed
    qed
  next
    case big: False
    from quoteChar_plain [OF c big] have qc: "quoteChar c = [c]" and c5: "c \<noteq> CHR 0x5C"
      by simp_all
    show ?thesis
    proof (cases "d \<in> set [CHR 0x22, CHR 0x5C, CHR 0x08, CHR 0x09, CHR 0x0A, CHR 0x0C, CHR 0x0D]")
      case d: True
      from quoteChar_escaped [OF d] obtain e' where qd: "quoteChar d = [CHR 0x5C, e']"
        by blast
      from eq c5 show ?thesis
        unfolding qc qd by simp
    next
      case d: False
      show ?thesis
      proof (cases "(of_char d :: nat) < 32")
        case True
        from eq c5 show ?thesis
          unfolding qc quoteChar_control [OF d True] by simp
      next
        case False
        from quoteChar_plain [OF d False] have qd: "quoteChar d = [d]"
          by simp
        from eq show ?thesis
          unfolding qc qd by simp
      qed
    qed
  qed
qed

lemma quoteChar_no_quote: "quoteChar c @ x \<noteq> CHR 0x22 # y"
proof (cases "c \<in> set [CHR 0x22, CHR 0x5C, CHR 0x08, CHR 0x09, CHR 0x0A, CHR 0x0C, CHR 0x0D]")
  case True
  from quoteChar_escaped [OF True] obtain e where "quoteChar c = [CHR 0x5C, e]"
    by blast
  then show ?thesis
    by simp
next
  case c: False
  show ?thesis
  proof (cases "(of_char c :: nat) < 32")
    case True
    show ?thesis
      unfolding quoteChar_control [OF c True] by simp
  next
    case False
    from quoteChar_plain [OF c False] show ?thesis
      by simp
  qed
qed

lemma quoted_body_prefix_free:
  "concat (map quoteChar a) @ CHR 0x22 # x = concat (map quoteChar b) @ CHR 0x22 # y \<Longrightarrow>
   a = b \<and> x = y"
proof (induction a arbitrary: b)
  case Nil
  show ?case
  proof (cases b)
    case Nil
    with Nil.prems show ?thesis
      by simp
  next
    case (Cons d b')
    with Nil.prems have "quoteChar d @ (concat (map quoteChar b') @ CHR 0x22 # y) = CHR 0x22 # x"
      by simp
    with quoteChar_no_quote show ?thesis
      by blast
  qed
next
  case (Cons c a)
  show ?case
  proof (cases b)
    case Nil
    with Cons.prems have "quoteChar c @ (concat (map quoteChar a) @ CHR 0x22 # x) = CHR 0x22 # y"
      by simp
    with quoteChar_no_quote show ?thesis
      by blast
  next
    case (Cons d b')
    with Cons.prems have "quoteChar c @ (concat (map quoteChar a) @ CHR 0x22 # x)
        = quoteChar d @ (concat (map quoteChar b') @ CHR 0x22 # y)"
      by simp
    from quoteChar_prefix_free [OF this]
    have "c = d" "concat (map quoteChar a) @ CHR 0x22 # x = concat (map quoteChar b') @ CHR 0x22 # y"
      by simp_all
    with Cons.IH [of b'] Cons show ?thesis
      by simp
  qed
qed

lemma quoteJSON_prefix_free: "quoteJSON a @ x = quoteJSON b @ y \<Longrightarrow> a = b \<and> x = y"
  unfolding quoteJSON_def using quoted_body_prefix_free [of a x b y] by simp

lemma joinComma_Cons: "joinComma (y # ys) = y @ concat (map (\<lambda>z. '','' @ z) ys)"
  by (induction ys arbitrary: y) simp_all

lemma joinComma_split:
  "joinComma (ps @ y # ys) =
     concat (map (\<lambda>z. z @ '','') ps) @ y @ concat (map (\<lambda>z. '','' @ z) ys)"
proof (induction ps)
  case Nil
  show ?case
    by (simp add: joinComma_Cons)
next
  case (Cons p ps)
  obtain z zs where "ps @ y # ys = z # zs"
    by (cases ps) simp_all
  then have "joinComma (p # ps @ y # ys) = p @ '','' @ joinComma (ps @ y # ys)"
    by simp
  with Cons show ?case
    by simp
qed

lemma first_difference:
  "length a = length b \<Longrightarrow> a \<noteq> b \<Longrightarrow>
   \<exists>p x xs y ys. a = p @ x # xs \<and> b = p @ y # ys \<and> x \<noteq> y"
proof (induction a b rule: list_induct2)
  case Nil
  then show ?case by simp
next
  case (Cons x xs y ys)
  show ?case
  proof (cases "x = y")
    case False
    then have "x # xs = [] @ x # xs \<and> y # ys = [] @ y # ys \<and> x \<noteq> y"
      by simp
    then show ?thesis
      by blast
  next
    case True
    with Cons.prems have "xs \<noteq> ys"
      by simp
    from Cons.IH [OF this] obtain p u us v vs
      where "xs = p @ u # us" "ys = p @ v # vs" "u \<noteq> v"
      by blast
    with True have "x # xs = (x # p) @ u # us \<and> y # ys = (x # p) @ v # vs \<and> u \<noteq> v"
      by simp
    then show ?thesis
      by blast
  qed
qed

lemma stringify_object_order:
  assumes "semanticallyEqual a b" and "stringify (JObj a) = stringify (JObj b)"
  shows "a = b"
proof (rule ccontr)
  assume "a \<noteq> b"
  let ?item = "\<lambda>kv. quoteJSON (fst kv) @ '':'' @ stringify (snd kv)"
  from assms(1) have keys: "distinct (map fst a)" "distinct (map fst b)" and same: "set a = set b"
    by (simp_all add: semanticallyEqual_def)
  from keys have "distinct a" "distinct b"
    by (simp_all add: distinct_map)
  with same have "length a = length b"
    by (metis distinct_card)
  from first_difference [OF this \<open>a \<noteq> b\<close>] obtain p x xs y ys
    where split: "a = p @ x # xs" "b = p @ y # ys" and diff: "x \<noteq> y"
    by blast
  have "x \<in> set a" "y \<in> set b"
    unfolding split by simp_all
  then have "x \<in> set b" "y \<in> set b"
    unfolding same by simp_all
  moreover have "inj_on fst (set b)"
    using keys(2) by (simp add: distinct_map)
  ultimately have other_key: "fst x \<noteq> fst y"
    using diff by (auto dest: inj_onD)
  let ?front = "concat (map (\<lambda>z. z @ '','') (map ?item p))"
  have "stringify (JObj a) = ''{'' @ ?front @ ?item x
      @ concat (map (\<lambda>z. '','' @ z) (map ?item xs)) @ ''}''"
    unfolding split by (simp add: joinComma_split)
  moreover have "stringify (JObj b) = ''{'' @ ?front @ ?item y
      @ concat (map (\<lambda>z. '','' @ z) (map ?item ys)) @ ''}''"
    unfolding split by (simp add: joinComma_split)
  ultimately have "quoteJSON (fst x) @ ('':'' @ stringify (snd x)
        @ concat (map (\<lambda>z. '','' @ z) (map ?item xs)) @ ''}'')
      = quoteJSON (fst y) @ ('':'' @ stringify (snd y)
        @ concat (map (\<lambda>z. '','' @ z) (map ?item ys)) @ ''}'')"
    using assms(2) by simp
  from quoteJSON_prefix_free [OF this] other_key show False
    by simp
qed

text \<open>
  C2 (as the code has it). The cache key is the topic, an underscore and
  \<open>JSON.stringify(options)\<close>: the fields of the options in the object's own order, each
  as its quoted key, a colon and its value, separated by commas, in braces. Field order is
  not normalised: two option objects with the same keys and values get the same key if
  and only if their fields also stand in the same order.
\<close>

theorem generateCacheKey_same_order:
  "generateCacheKey topic (JObj kvs) =
     topic @ ''_{''
       @ joinComma (map (\<lambda>kv. quoteJSON (fst kv) @ '':'' @ stringify (snd kv)) kvs) @ ''}''
   \<and> (semanticallyEqual optionsA optionsB \<longrightarrow>
        (generateCacheKey topic (JObj optionsA) = generateCacheKey topic (JObj optionsB))
          = (map fst optionsA = map fst optionsB))"
proof -
  have shape: "generateCacheKey topic (JObj kvs) =
     topic @ ''_{''
       @ joinComma (map (\<lambda>kv. quoteJSON (fst kv) @ '':'' @ stringify (snd kv)) kvs) @ ''}''"
    by (simp add: generateCacheKey_def)
  have "(generateCacheKey topic (JObj optionsA) = generateCacheKey topic (JObj optionsB))
          = (map fst optionsA = map fst optionsB)"
    if sem: "semanticallyEqual optionsA optionsB"
  proof
    assume "generateCacheKey topic (JObj optionsA) = generateCacheKey topic (JObj optionsB)"
    then have "stringify (JObj optionsA) = stringify (JObj optionsB)"
      by (simp add: generateCacheKey_def)
    with sem have "optionsA = optionsB"
      by (rule stringify_object_order)
    then show "map fst optionsA = map fst optionsB"
      by simp
  next
    assume "map fst optionsA = map fst optionsB"
    with sem have "optionsA = optionsB"
      unfolding semanticallyEqual_def by (intro same_order_equal) simp_all
    then show "generateCacheKey topic (JObj optionsA) = generateCacheKey topic (JObj optionsB)"
      by simp
  qed
  with shape show ?thesis
    by blast
qed

theorem generateCacheKey_same_order_witness:
  "semanticallyEqual exampleOptionsA exampleOptionsB
   \<and> map fst exampleOptionsA \<noteq> map fst exampleOptionsB
   \<and> generateCacheKey ''climate'' (JObj exampleOptionsA)
       \<noteq> generateCacheKey ''climate'' (JObj exampleOptionsB)
   \<and> semanticallyEqual exampleOptionsA (rev exampleOptionsB)
   \<and> generateCacheKey ''climate'' (JObj exampleOptionsA)
       = generateCacheKey ''climate'' (JObj (rev exampleOptionsB))"
proof -
  have sem: "semanticallyEqual exampleOptionsA exampleOptionsB"
    "semanticallyEqual exampleOptionsA (rev exampleOptionsB)"
    by (auto simp: semanticallyEqual_def exampleOptionsA_def exampleOptionsB_def)
  have keys: "map fst exampleOptionsA \<noteq> map fst exampleOptionsB"
    "map fst exampleOptionsA = map fst (rev exampleOptionsB)"
    by (simp_all add: exampleOptionsA_def exampleOptionsB_def)
  have "generateCacheKey ''climate'' (JObj exampleOptionsA)
       \<noteq> generateCacheKey ''climate'' (JObj exampleOptionsB)"
    using generateCacheKey_same_order [of "''climate''" "[]" exampleOptionsA exampleOptionsB]
      sem(1) keys(1)
    by blast
  moreover have "generateCacheKey ''climate'' (JObj exampleOptionsA)
       = generateCacheKey ''climate'' (JObj (rev exampleOptionsB))"
    using generateCacheKey_same_order [of "''climate''" "[]" exampleOptionsA "rev exampleOptionsB"]
      sem(2) keys(2)
    by blast
  ultimately show ?thesis
    using sem keys(1) by blast
qed

text \<open>
  C2 as the specification states it fails: the two example objects hold the same two
  fields in different order and get different keys.
\<close>

theorem generateCacheKey_field_order_counterexample:
  "semanticallyEqual exampleOptionsA exampleOptionsB
   \<and> generateCacheKey ''ai'' (JObj exampleOptionsA) = ''ai_{\"tone\":\"casual\",\"depth\":\"brief\"}''
   \<and> generateCacheKey ''ai'' (JObj exampleOptionsB) = ''ai_{\"depth\":\"brief\",\"tone\":\"casual\"}''
   \<and> generateCacheKey ''ai'' (JObj exampleOptionsA) \<noteq> generateCacheKey ''ai'' (JObj exampleOptionsB)"
proof -
  have "semanticallyEqual exampleOptionsA exampleOptionsB"
    by (auto simp: semanticallyEqual_def exampleOptionsA_def exampleOptionsB_def)
  moreover have
    "generateCacheKey ''ai'' (JObj exampleOptionsA) = ''ai_{\"tone\":\"casual\",\"depth\":\"brief\"}''"
    "generateCacheKey ''ai'' (JObj exampleOptionsB) = ''ai_{\"depth\":\"brief\",\"tone\":\"casual\"}''"
    by (simp_all add: generateCacheKey_def exampleOptionsA_def exampleOptionsB_def quoteJSON_def
        quoteChar_def)
  ultimately show ?thesis
    by simp
qed

section \<open>Properties of the research call\<close>

lemma analyzeSources_Cons_ok:
  "analyzeContent env (the (extractContent s)) t = (Inr a, cs) \<Longrightarrow>
   fst (analyzeSources env t (s # rest) acc) =
     fst (analyzeSources env t rest
            (acc @ [\<lparr>source = s, content = the (extractContent s), analysis = a\<rparr>]))"
  by (simp add: extractContent_def split: prod.splits)

lemma analyzeSources_Cons_throw:
  "analyzeContent env (the (extractContent s)) t = (Inl e, cs) \<Longrightarrow>
   fst (analyzeSources env t (s # rest) acc) = Inl e"
  by (simp add: extractContent_def)

lemma analyzeSources_results:
  "fst (analyzeSources env t srcs acc) = Inr rs \<Longrightarrow>
   \<exists>new. rs = acc @ new \<and> map source new = srcs
         \<and> (\<forall>r \<in> set new. extractContent (source r) = Some (content r))"
proof (induction srcs arbitrary: acc)
  case Nil
  then have "rs = acc @ []" by simp
  then show ?case by fastforce
next
  case (Cons s rest)
  obtain out cs where out: "analyzeContent env (the (extractContent s)) t = (out, cs)"
    by (cases "analyzeContent env (the (extractContent s)) t")
  show ?case
  proof (cases out)
    case (Inl e)
    with out have "analyzeContent env (the (extractContent s)) t = (Inl e, cs)"
      by simp
    from analyzeSources_Cons_throw [OF this, of rest acc] Cons.prems show ?thesis
      by (simp only: sum.distinct)
  next
    case (Inr a)
    let ?r = "\<lparr>source = s, content = the (extractContent s), analysis = a\<rparr>"
    from out Inr have "analyzeContent env (the (extractContent s)) t = (Inr a, cs)"
      by simp
    from analyzeSources_Cons_ok [OF this, of rest acc] Cons.prems
    have "fst (analyzeSources env t rest (acc @ [?r])) = Inr rs"
      by (simp only:)
    from Cons.IH [OF this] obtain new where new: "rs = (acc @ [?r]) @ new"
      "map source new = rest" "\<forall>r \<in> set new. extractContent (source r) = Some (content r)"
      by (elim exE conjE)
    have "rs = acc @ (?r # new)"
      using new(1) by simp
    moreover have "map source (?r # new) = s # rest"
      using new(2) by simp
    moreover have "\<forall>r \<in> set (?r # new). extractContent (source r) = Some (content r)"
      using new(3) by (simp add: extractContent_def)
    ultimately show ?thesis
      by (intro exI [of _ "?r # new"] conjI)
  qed
qed

lemma analyzeSources_total:
  "(\<forall>s \<in> set srcs. \<exists>a. fst (analyzeContent env (the (extractContent s)) t) = Inr a) \<Longrightarrow>
   \<exists>rs. fst (analyzeSources env t srcs acc) = Inr rs"
proof (induction srcs arbitrary: acc)
  case Nil
  then show ?case by simp
next
  case (Cons s rest)
  then obtain a where "fst (analyzeContent env (the (extractContent s)) t) = Inr a"
    by auto
  then obtain cs where "analyzeContent env (the (extractContent s)) t = (Inr a, cs)"
    by (cases "analyzeContent env (the (extractContent s)) t") auto
  from analyzeSources_Cons_ok [OF this] Cons.IH Cons.prems show ?case
    by simp
qed

lemma analyzeSources_throws_at:
  "(\<forall>x \<in> set pre. \<exists>a. fst (analyzeContent env (the (extractContent x)) t) = Inr a) \<Longrightarrow>
   fst (analyzeContent env (the (extractContent s)) t) = Inl e \<Longrightarrow>
   fst (analyzeSources env t (pre @ s # post) acc) = Inl e"
proof (induction pre arbitrary: acc)
  case Nil
  obtain cs where "analyzeContent env (the (extractContent s)) t = (Inl e, cs)"
    using Nil.prems(2) by (cases "analyzeContent env (the (extractContent s)) t") simp
  from analyzeSources_Cons_throw [OF this] show ?case
    by simp
next
  case (Cons x pre)
  from Cons.prems(1) obtain a where "fst (analyzeContent env (the (extractContent x)) t) = Inr a"
    by auto
  then obtain cs where "analyzeContent env (the (extractContent x)) t = (Inr a, cs)"
    by (cases "analyzeContent env (the (extractContent x)) t") simp
  from analyzeSources_Cons_ok [OF this, of "pre @ s # post" acc]
  have "fst (analyzeSources env t ((x # pre) @ s # post) acc) =
      fst (analyzeSources env t (pre @ s # post)
            (acc @ [\<lparr>source = x, content = the (extractContent x), analysis = a\<rparr>]))"
    by simp
  also have "\<dots> = Inl e"
    using Cons.prems by (intro Cons.IH) simp_all
  finally show ?case .
qed

lemma analyzeSources_fallback:
  "analysisPlugin env = None \<Longrightarrow>
   fst (analyzeSources env t srcs acc) =
     Inr (acc @ map (\<lambda>s. \<lparr>source = s, content = the (extractContent s),
                            analysis = Some fallbackAnalysis\<rparr>) srcs)"
  by (induction srcs arbitrary: acc)
    (simp_all add: extractContent_def analyzeContent_def split: prod.splits)

lemma runStages_results:
  assumes "fst (runStages env t opts) = Inr ctx"
  shows "\<exists>rs. fst (analyzeSources env t (take (maxSources env) (ctx_sources ctx)) []) = Inr rs
           \<and> ctx_results ctx = rs"
  using assms
  by (auto simp: runStages_def Let_def split: prod.splits sum.splits if_splits)


lemma runStages_search_throws:
  "fst (performSearch env t opts) = Inl e \<Longrightarrow> fst (runStages env t opts) = Inl e"
  by (auto simp: runStages_def Let_def split: prod.splits sum.splits)


lemma runStages_analysis_throws:
  "fst (performSearch env t opts) = Inr srcs \<Longrightarrow>
   fst (analyzeSources env t (take (maxSources env) srcs) []) = Inl e \<Longrightarrow>
   fst (runStages env t opts) = Inl e"
  by (auto simp: runStages_def Let_def split: prod.splits sum.splits)


lemma runStages_verification_throws:
  "fst (performSearch env t opts) = Inr srcs \<Longrightarrow>
   fst (analyzeSources env t (take (maxSources env) srcs) []) = Inr rs \<Longrightarrow>
   verificationEnabled env \<Longrightarrow> verificationPlugin env = Some h \<Longrightarrow>
   h \<lparr>ctx_topic = t, ctx_options = objectSpread (customization env) opts, ctx_results = rs,
      ctx_sources = srcs, ctx_analysis = None, ctx_verification = None, ctx_report = None\<rparr>
     = Inl e \<Longrightarrow>
   fst (runStages env t opts) = Inl e"
  by (auto simp: runStages_def Let_def verifyInformation_def split: prod.splits sum.splits)

lemma getCachedResult_emit:
  "fst (getCachedResult env (emit ev st) k) = fst (getCachedResult env st k)"
  by (simp add: getCachedResult_def emit_def Let_def
      split: option.splits cache_file.splits prod.splits)


lemma research_fresh:
  assumes "topic = Some (JStr t)" "t \<noteq> []"
    and "\<not> cacheEnabled env \<or> fst (getCachedResult env st (generateCacheKey t (JObj opts))) = None"
  shows "fst (research env st topic opts) = fst (runStages env t opts)"
proof -
  let ?k = "generateCacheKey t (JObj opts)"
  have "fst (if cacheEnabled env then getCachedResult env (emit ResearchStart st) ?k
             else (None, emit ResearchStart st)) = None"
    using assms(3) by (auto simp: getCachedResult_emit)
  then obtain st' where "(if cacheEnabled env then getCachedResult env (emit ResearchStart st) ?k
             else (None, emit ResearchStart st)) = (None, st')"
    by (metis prod.collapse)
  then show ?thesis
    using assms(1,2)
    by (simp add: research_def Let_def split: prod.splits sum.splits)
qed



lemma getCachedResult_frame:
  "researchHistory (snd (getCachedResult env st k)) = researchHistory st"
  "resultFiles (snd (getCachedResult env st k)) = resultFiles st"
  "events (snd (getCachedResult env st k)) = events st"
  "invoked (snd (getCachedResult env st k)) = invoked st"
  by (simp_all add: getCachedResult_def Let_def
      split: option.splits cache_file.splits prod.splits)

lemma research_miss:
  assumes "topic = Some (JStr t)" "t \<noteq> []"
    and "\<not> cacheEnabled env \<or> fst (getCachedResult env st (generateCacheKey t (JObj opts))) = None"
  shows "\<exists>st1. researchHistory st1 = researchHistory st \<and> resultFiles st1 = resultFiles st
     \<and> events st1 = events st @ [ResearchStart]
     \<and> research env st topic opts =
         (case runStages env t opts of
            (Inl e, cs) \<Rightarrow>
              (Inl e, emit (ResearchError (message e)) (st1\<lparr>invoked := invoked st1 @ cs\<rparr>))
          | (Inr researchContext, cs) \<Rightarrow>
              (Inr researchContext,
               finish env (st1\<lparr>invoked := invoked st1 @ cs\<rparr>) t
                 (generateCacheKey t (JObj opts)) researchContext))"
proof -
  let ?k = "generateCacheKey t (JObj opts)"
  let ?st0 = "emit ResearchStart st"
  let ?lookup = "if cacheEnabled env then getCachedResult env ?st0 ?k else (None, ?st0)"
  have "fst ?lookup = None"
    using assms(3) by (auto simp: getCachedResult_emit)
  then have lookup: "?lookup = (None, snd ?lookup)"
    by (metis prod.collapse)
  have frame: "researchHistory (snd ?lookup) = researchHistory st"
    "resultFiles (snd ?lookup) = resultFiles st"
    "events (snd ?lookup) = events st @ [ResearchStart]"
    by (simp_all add: getCachedResult_frame) (simp_all add: emit_def)
  have valid: "\<not> (\<not> truthy topic \<or> typeOf topic \<noteq> ''string'')" "stringOf topic = t"
    using assms(1,2) by simp_all
  have "research env st topic opts =
         (case runStages env t opts of
            (Inl e, cs) \<Rightarrow>
              (Inl e, emit (ResearchError (message e))
                        ((snd ?lookup)\<lparr>invoked := invoked (snd ?lookup) @ cs\<rparr>))
          | (Inr researchContext, cs) \<Rightarrow>
              (Inr researchContext,
               finish env ((snd ?lookup)\<lparr>invoked := invoked (snd ?lookup) @ cs\<rparr>) t ?k
                 researchContext))"
    unfolding research_def Let_def valid if_not_P [OF valid(1)]
    by (subst lookup) simp
  with frame show ?thesis
    by blast
qed

text \<open>
  C1 (as the code has it). In a research call with a valid topic that is not answered
  from the cache, an installed capability that throws during its invocation makes the
  whole call fail with that error: the search plugin; the analysis plugin on any of the
  first \<open>maxSources\<close> sources, the analyses of the sources before it having returned; the
  verification plugin on the context of the call, when verification is enabled. No
  research context is returned; the call emits the error event last and adds no entry
  to the research history and no result file.
\<close>

theorem research_capability_failure_propagates:
  assumes "topic = Some (JStr t)" "t \<noteq> []"
    and "\<not> cacheEnabled env \<or> fst (getCachedResult env st (generateCacheKey t (JObj opts))) = None"
  shows "(searchPlugin env = Some f \<and> f t opts = Inl e \<longrightarrow>
            fst (research env st topic opts) = Inl e)
     \<and> (fst (performSearch env t opts) = Inr srcs
          \<and> take (maxSources env) srcs = pre @ s # post
          \<and> analysisPlugin env = Some g
          \<and> (\<forall>x \<in> set pre. \<exists>a. g (the (extractContent x)) t = Inr a)
          \<and> g (the (extractContent s)) t = Inl e \<longrightarrow>
            fst (research env st topic opts) = Inl e)
     \<and> (fst (performSearch env t opts) = Inr srcs
          \<and> fst (analyzeSources env t (take (maxSources env) srcs) []) = Inr rs
          \<and> verificationEnabled env \<and> verificationPlugin env = Some h
          \<and> h \<lparr>ctx_topic = t, ctx_options = objectSpread (customization env) opts,
                ctx_results = rs, ctx_sources = srcs, ctx_analysis = None,
                ctx_verification = None, ctx_report = None\<rparr> = Inl e \<longrightarrow>
            fst (research env st topic opts) = Inl e)
     \<and> (fst (research env st topic opts) = Inl e \<longrightarrow>
            events (snd (research env st topic opts))
              = events st @ [ResearchStart, ResearchError (message e)]
          \<and> researchHistory (snd (research env st topic opts)) = researchHistory st
          \<and> resultFiles (snd (research env st topic opts)) = resultFiles st)"
proof -
  have run: "fst (research env st topic opts) = fst (runStages env t opts)"
    using assms by (rule research_fresh)
  have search: "fst (research env st topic opts) = Inl e"
    if "searchPlugin env = Some f" "f t opts = Inl e"
  proof -
    from that have "fst (performSearch env t opts) = Inl e"
      by (simp add: performSearch_def)
    then show ?thesis
      unfolding run by (rule runStages_search_throws)
  qed
  have analyse: "fst (research env st topic opts) = Inl e"
    if "fst (performSearch env t opts) = Inr srcs"
      "take (maxSources env) srcs = pre @ s # post"
      "analysisPlugin env = Some g"
      "\<forall>x \<in> set pre. \<exists>a. g (the (extractContent x)) t = Inr a"
      "g (the (extractContent s)) t = Inl e"
  proof -
    have before: "\<forall>x \<in> set pre. \<exists>a. fst (analyzeContent env (the (extractContent x)) t) = Inr a"
      using that(3,4) by (simp add: analyzeContent_def)
    have at: "fst (analyzeContent env (the (extractContent s)) t) = Inl e"
      using that(3,5) by (simp add: analyzeContent_def)
    have "fst (analyzeSources env t (pre @ s # post) []) = Inl e"
      using before at by (rule analyzeSources_throws_at)
    then have "fst (analyzeSources env t (take (maxSources env) srcs) []) = Inl e"
      by (simp only: that(2))
    with that(1) show ?thesis
      unfolding run by (rule runStages_analysis_throws)
  qed
  have verification: "fst (research env st topic opts) = Inl e"
    if "fst (performSearch env t opts) = Inr srcs"
      "fst (analyzeSources env t (take (maxSources env) srcs) []) = Inr rs"
      "verificationEnabled env" "verificationPlugin env = Some h"
      "h \<lparr>ctx_topic = t, ctx_options = objectSpread (customization env) opts,
          ctx_results = rs, ctx_sources = srcs, ctx_analysis = None,
          ctx_verification = None, ctx_report = None\<rparr> = Inl e"
    using that unfolding run by (rule runStages_verification_throws)
  have failed: "events (snd (research env st topic opts))
              = events st @ [ResearchStart, ResearchError (message e)]
          \<and> researchHistory (snd (research env st topic opts)) = researchHistory st
          \<and> resultFiles (snd (research env st topic opts)) = resultFiles st"
    if "fst (research env st topic opts) = Inl e"
  proof -
    from research_miss [OF assms] obtain st1 where st1:
      "researchHistory st1 = researchHistory st" "resultFiles st1 = resultFiles st"
      "events st1 = events st @ [ResearchStart]"
      "research env st topic opts =
         (case runStages env t opts of
            (Inl e, cs) \<Rightarrow>
              (Inl e, emit (ResearchError (message e)) (st1\<lparr>invoked := invoked st1 @ cs\<rparr>))
          | (Inr researchContext, cs) \<Rightarrow>
              (Inr researchContext,
               finish env (st1\<lparr>invoked := invoked st1 @ cs\<rparr>) t
                 (generateCacheKey t (JObj opts)) researchContext))"
      by blast
    obtain out cs where out: "runStages env t opts = (out, cs)"
      by (cases "runStages env t opts")
    with that run have "out = Inl e"
      by simp
    with out st1(4) have "research env st topic opts =
        (Inl e, emit (ResearchError (message e)) (st1\<lparr>invoked := invoked st1 @ cs\<rparr>))"
      by simp
    then show ?thesis
      using st1(1-3) by (simp add: emit_def)
  qed
  from search analyse verification failed show ?thesis
    by blast
qed

lemma example_cache_miss:
  "fst (getCachedResult env exampleAgent k) = None"
  by (simp add: getCachedResult_def exampleAgent_def)

lemma example_search:
  "fst (performSearch exampleEnvAnalysisThrows ''ai'' []) = Inr [exampleGoogle, exampleArxiv]"
  "fst (performSearch exampleEnvVerificationThrows ''ai'' []) = Inr [exampleGoogle, exampleArxiv]"
  "fst (performSearch exampleEnvSearch ''ai'' []) = Inr [exampleGoogle, exampleArxiv]"
  by (simp_all add: performSearch_def exampleEnvAnalysisThrows_def
      exampleEnvVerificationThrows_def exampleEnvSearch_def exampleEnv_def workingSearch_def)

theorem research_capability_failure_propagates_witness:
  "fst (research exampleEnvSearchThrows exampleAgent (Some (JStr ''ai'')) [])
     = Inl (Error ''search failed'')
   \<and> laterThrowingAnalysis (the (extractContent exampleGoogle)) ''ai'' = Inr (Some fallbackAnalysis)
   \<and> laterThrowingAnalysis (the (extractContent exampleArxiv)) ''ai''
       = Inl (Error ''analysis failed'')
   \<and> fst (research exampleEnvAnalysisThrows exampleAgent (Some (JStr ''ai'')) [])
     = Inl (Error ''analysis failed'')
   \<and> fst (research exampleEnvVerificationThrows exampleAgent (Some (JStr ''ai'')) [])
     = Inl (Error ''verification failed'')
   \<and> events (snd (research exampleEnvSearchThrows exampleAgent (Some (JStr ''ai'')) []))
     = [ResearchStart, ResearchError ''search failed'']"
proof -
  have miss: "\<not> cacheEnabled env
      \<or> fst (getCachedResult env exampleAgent (generateCacheKey ''ai'' (JObj []))) = None" for env
    by (simp add: example_cache_miss)
  have ne: "''ai'' \<noteq> []"
    by simp
  note failure = research_capability_failure_propagates [OF refl ne miss]
  have search: "searchPlugin exampleEnvSearchThrows = Some throwingSearch"
    "throwingSearch ''ai'' [] = Inl (Error ''search failed'')"
    by (simp_all add: exampleEnvSearchThrows_def throwingSearch_def)
  have first: "laterThrowingAnalysis (the (extractContent exampleGoogle)) ''ai''
      = Inr (Some fallbackAnalysis)"
    by (simp add: laterThrowingAnalysis_def extractContent_def exampleGoogle_def exampleArxiv_def)
  have second: "laterThrowingAnalysis (the (extractContent exampleArxiv)) ''ai''
      = Inl (Error ''analysis failed'')"
    by (simp add: laterThrowingAnalysis_def extractContent_def exampleArxiv_def)
  have analyse:
    "take (maxSources exampleEnvAnalysisThrows) [exampleGoogle, exampleArxiv]
       = [exampleGoogle] @ exampleArxiv # []"
    "analysisPlugin exampleEnvAnalysisThrows = Some laterThrowingAnalysis"
    by (simp_all add: exampleEnvAnalysisThrows_def exampleEnv_def)
  have before: "\<forall>x \<in> set [exampleGoogle].
      \<exists>a. laterThrowingAnalysis (the (extractContent x)) ''ai'' = Inr a"
    using first by simp
  have none: "analysisPlugin exampleEnvVerificationThrows = None"
    by (simp add: exampleEnvVerificationThrows_def exampleEnv_def)
  obtain rs where rs: "fst (analyzeSources exampleEnvVerificationThrows ''ai''
          (take (maxSources exampleEnvVerificationThrows) [exampleGoogle, exampleArxiv]) []) = Inr rs"
    using analyzeSources_fallback [OF none] by blast
  have verification: "verificationEnabled exampleEnvVerificationThrows"
    "verificationPlugin exampleEnvVerificationThrows = Some throwingVerification"
    "throwingVerification c = Inl (Error ''verification failed'')" for c
    by (simp_all add: exampleEnvVerificationThrows_def exampleEnv_def throwingVerification_def)
  have a: "fst (research exampleEnvSearchThrows exampleAgent (Some (JStr ''ai'')) [])
     = Inl (Error ''search failed'')"
    using failure [of exampleEnvSearchThrows throwingSearch "Error ''search failed''"] search
    by blast
  have b: "fst (research exampleEnvAnalysisThrows exampleAgent (Some (JStr ''ai'')) [])
     = Inl (Error ''analysis failed'')"
    using failure [of exampleEnvAnalysisThrows _ "Error ''analysis failed''"
        "[exampleGoogle, exampleArxiv]" "[exampleGoogle]" exampleArxiv "[]"
        laterThrowingAnalysis] example_search(1) analyse before second
    by blast
  have c: "fst (research exampleEnvVerificationThrows exampleAgent (Some (JStr ''ai'')) [])
     = Inl (Error ''verification failed'')"
    using failure [of exampleEnvVerificationThrows _ "Error ''verification failed''"
        "[exampleGoogle, exampleArxiv]" _ _ _ _ rs throwingVerification]
      example_search(2) rs verification
    by blast
  have d: "events (snd (research exampleEnvSearchThrows exampleAgent (Some (JStr ''ai'')) []))
     = events exampleAgent @ [ResearchStart, ResearchError (message (Error ''search failed''))]"
    using failure [of exampleEnvSearchThrows throwingSearch "Error ''search failed''"] a
    by blast
  from a b c d first second show ?thesis
    by (simp add: exampleAgent_def)
qed

text \<open>
  C1 as the specification states it fails: with a search plugin installed that throws,
  the research call on the valid topic \<open>ai\<close> does not return a result; it fails with the
  plugin's error, which it emits as the error event.
\<close>

theorem research_throwing_search_counterexample:
  "searchPlugin exampleEnvSearchThrows = Some throwingSearch
   \<and> throwingSearch ''ai'' [] = Inl (Error ''search failed'')
   \<and> research exampleEnvSearchThrows exampleAgent (Some (JStr ''ai'')) [] =
       (Inl (Error ''search failed''),
        exampleAgent\<lparr>events := [ResearchStart, ResearchError ''search failed''],
                      invoked := [SearchCall ''ai'']\<rparr>)"
  by (simp add: research_def runStages_def performSearch_def getCachedResult_def emit_def
      exampleEnvSearchThrows_def exampleEnv_def exampleAgent_def throwingSearch_def Let_def)

subsection \<open>Input validation\<close>

text \<open>
  C9. For a topic that is the empty string or not a string at all, \<open>research\<close> throws the
  input error. The agent afterwards differs from the agent before only in the two
  emitted events: no capability has been invoked, and the memory cache, the cache files,
  the research history and the result files are as they were.
\<close>

theorem research_invalid_topic:
  assumes "topic = Some (JStr []) \<or> (\<forall>s. topic \<noteq> Some (JStr s))"
  shows "research env st topic opts =
     (Inl (Error ''Research topic must be a non-empty string''),
      st\<lparr>events := events st @ [ResearchStart,
                                 ResearchError ''Research topic must be a non-empty string'']\<rparr>)
     \<and> invoked (snd (research env st topic opts)) = invoked st
     \<and> cache (snd (research env st topic opts)) = cache st
     \<and> cacheFiles (snd (research env st topic opts)) = cacheFiles st
     \<and> researchHistory (snd (research env st topic opts)) = researchHistory st
     \<and> resultFiles (snd (research env st topic opts)) = resultFiles st"
proof -
  have "\<not> truthy topic \<or> typeOf topic \<noteq> ''string''"
  proof (cases topic)
    case None
    then show ?thesis by simp
  next
    case (Some v)
    with assms show ?thesis by (cases v) auto
  qed
  then have "research env st topic opts =
     (Inl (Error ''Research topic must be a non-empty string''),
      st\<lparr>events := events st @ [ResearchStart,
                                 ResearchError ''Research topic must be a non-empty string'']\<rparr>)"
    by (simp add: research_def emit_def Let_def)
  then show ?thesis
    by simp
qed

theorem research_invalid_topic_witness:
  "research exampleEnvSearch exampleAgent (Some (JStr [])) [] =
     (Inl (Error ''Research topic must be a non-empty string''),
      exampleAgent\<lparr>events := [ResearchStart,
                               ResearchError ''Research topic must be a non-empty string'']\<rparr>)
   \<and> fst (research exampleEnvSearch exampleAgent None [])
       = Inl (Error ''Research topic must be a non-empty string'')
   \<and> invoked (snd (research exampleEnvSearch exampleAgent (Some (JNum 42)) [])) = []"
proof -
  have "Some (JStr []) = Some (JStr []) \<or> (\<forall>s. Some (JStr []) \<noteq> Some (JStr s))"
    "None = Some (JStr []) \<or> (\<forall>s. None \<noteq> Some (JStr s))"
    "Some (JNum 42) = Some (JStr []) \<or> (\<forall>s. Some (JNum 42) \<noteq> Some (JStr s))"
    by simp_all
  from this [THEN research_invalid_topic, of exampleEnvSearch exampleAgent "[]"] show ?thesis
    by (simp add: exampleAgent_def)
qed

subsection \<open>The loop over the sources\<close>

lemma generateAnalysis_returns:
  "\<forall>r \<in> set (ctx_results c). analysis r \<noteq> None \<Longrightarrow> generateAnalysis env c \<noteq> (Inl e, cs)"
  by (auto simp: generateAnalysis_def Let_def split: sum.splits)

lemma runStages_returns:
  assumes "performSearch env t opts = (Inr srcs, c1)"
    and "analyzeSources env t (take (maxSources env) srcs) [] = (Inr rs, c2)"
    and "verificationPlugin env = None \<or> \<not> verificationEnabled env"
    and "\<forall>r \<in> set rs. analysis r \<noteq> None"
  shows "\<exists>ctx. fst (runStages env t opts) = Inr ctx \<and> ctx_sources ctx = srcs
           \<and> ctx_results ctx = rs"
proof -
  let ?ctx = "\<lparr>ctx_topic = t, ctx_options = objectSpread (customization env) opts,
      ctx_results = rs, ctx_sources = srcs, ctx_analysis = None, ctx_verification = None,
      ctx_report = None\<rparr>"
  have ga: "generateAnalysis env ?ctx \<noteq> (Inl e, cs)"
    "generateAnalysis env (?ctx\<lparr>ctx_verification := Some fallbackVerification\<rparr>) \<noteq> (Inl e, cs)"
    for e cs
    using assms(4) by (simp_all add: generateAnalysis_returns)
  show ?thesis
    using assms(1-3) ga
    by (auto simp: runStages_def Let_def verifyInformation_def split: prod.splits sum.splits)
qed

text \<open>
  C10. \<open>extractContent\<close> returns an object for every source, its content being the
  snippet, or \<open>Content not available\<close> when the source has no snippet, so the test of the
  loop never skips a source: whenever the stages of a research call return a context,
  its results are, in order, one analyzed result for each of the first \<open>maxSources\<close>
  sources, each holding the extracted content of its source. The loop returns such a
  list whenever the analysis of every source returns.
\<close>

theorem extractContent_never_skips:
  "extractContent s =
     Some \<lparr>ex_title = strOr (title s) ''Untitled'',
           ex_content = strOr (snippet s) ''Content not available'', ex_url = url s\<rparr>
   \<and> (snippet s = None \<longrightarrow> ex_content (the (extractContent s)) = ''Content not available'')
   \<and> (fst (runStages env t opts) = Inr ctx \<longrightarrow>
        map source (ctx_results ctx) = take (maxSources env) (ctx_sources ctx)
        \<and> (\<forall>r \<in> set (ctx_results ctx). extractContent (source r) = Some (content r)))
   \<and> ((\<forall>x \<in> set srcs. \<exists>a. fst (analyzeContent env (the (extractContent x)) t) = Inr a) \<longrightarrow>
        (\<exists>rs. fst (analyzeSources env t srcs []) = Inr rs \<and> map source rs = srcs))"
proof -
  have absent: "ex_content (the (extractContent s)) = ''Content not available''"
    if "snippet s = None"
    using that by (simp add: extractContent_def strOr_def truthyStr_def)
  have stages: "map source (ctx_results ctx) = take (maxSources env) (ctx_sources ctx)
        \<and> (\<forall>r \<in> set (ctx_results ctx). extractContent (source r) = Some (content r))"
    if "fst (runStages env t opts) = Inr ctx"
  proof -
    from runStages_results [OF that]
    have "fst (analyzeSources env t (take (maxSources env) (ctx_sources ctx)) [])
        = Inr (ctx_results ctx)"
      by simp
    from analyzeSources_results [OF this] show ?thesis
      by simp
  qed
  have loop: "\<exists>rs. fst (analyzeSources env t srcs []) = Inr rs \<and> map source rs = srcs"
    if "\<forall>x \<in> set srcs. \<exists>a. fst (analyzeContent env (the (extractContent x)) t) = Inr a"
  proof -
    from analyzeSources_total [OF that, of "[]"] obtain rs
      where rs: "fst (analyzeSources env t srcs []) = Inr rs"
      by blast
    from analyzeSources_results [OF this] have "map source rs = srcs"
      by simp
    with rs show ?thesis
      by blast
  qed
  have "extractContent s =
     Some \<lparr>ex_title = strOr (title s) ''Untitled'',
           ex_content = strOr (snippet s) ''Content not available'', ex_url = url s\<rparr>"
    by (simp add: extractContent_def)
  with absent stages loop show ?thesis
    by blast
qed

theorem extractContent_never_skips_witness:
  "snippet exampleGoogle = None
   \<and> ex_content (the (extractContent exampleGoogle)) = ''Content not available''
   \<and> (\<exists>ctx. fst (runStages exampleEnvSearch ''ai'' []) = Inr ctx
         \<and> ctx_sources ctx = [exampleGoogle, exampleArxiv]
         \<and> map source (ctx_results ctx) = [exampleGoogle, exampleArxiv])
   \<and> (\<exists>rs. fst (analyzeSources exampleEnvSearch ''ai'' [exampleGoogle, exampleArxiv] []) = Inr rs
         \<and> map source rs = [exampleGoogle, exampleArxiv])"
proof -
  note never = extractContent_never_skips [of exampleGoogle exampleEnvSearch "''ai''" "[]" _
      "[exampleGoogle, exampleArxiv]"]
  have none: "snippet exampleGoogle = None"
    by (simp add: exampleGoogle_def)
  have fallback: "analysisPlugin exampleEnvSearch = None"
    by (simp add: exampleEnvSearch_def exampleEnv_def)
  then have returns: "\<forall>x \<in> set [exampleGoogle, exampleArxiv].
      \<exists>a. fst (analyzeContent exampleEnvSearch (the (extractContent x)) ''ai'') = Inr a"
    by (simp add: analyzeContent_def)
  obtain rs
    where rs: "fst (analyzeSources exampleEnvSearch ''ai'' [exampleGoogle, exampleArxiv] []) = Inr rs"
    and analysed: "\<forall>r \<in> set rs. analysis r \<noteq> None"
    using analyzeSources_fallback [OF fallback, of "''ai''" "[exampleGoogle, exampleArxiv]" "[]"]
    by simp
  have ten: "take (maxSources exampleEnvSearch) [exampleGoogle, exampleArxiv]
      = [exampleGoogle, exampleArxiv]"
    by (simp add: exampleEnvSearch_def exampleEnv_def)
  obtain ctx where ctx: "fst (runStages exampleEnvSearch ''ai'' []) = Inr ctx"
    "ctx_sources ctx = [exampleGoogle, exampleArxiv]"
  proof -
    obtain out cs where out: "analyzeSources exampleEnvSearch ''ai''
        [exampleGoogle, exampleArxiv] [] = (out, cs)"
      by (cases "analyzeSources exampleEnvSearch ''ai'' [exampleGoogle, exampleArxiv] []")
    with rs have "out = Inr rs"
      by simp
    with out have run: "analyzeSources exampleEnvSearch ''ai''
        (take (maxSources exampleEnvSearch) [exampleGoogle, exampleArxiv]) [] = (Inr rs, cs)"
      by (simp add: ten)
    have search: "performSearch exampleEnvSearch ''ai'' []
        = (Inr [exampleGoogle, exampleArxiv], [SearchCall ''ai''])"
      by (simp add: performSearch_def exampleEnvSearch_def exampleEnv_def workingSearch_def)
    have "verificationPlugin exampleEnvSearch = None \<or> \<not> verificationEnabled exampleEnvSearch"
      by (simp add: exampleEnvSearch_def exampleEnv_def)
    from runStages_returns [OF search run this analysed]
    have "\<exists>c. fst (runStages exampleEnvSearch ''ai'' []) = Inr c
        \<and> ctx_sources c = [exampleGoogle, exampleArxiv]"
      by blast
    then show ?thesis
      using that by blast
  qed
  from never [of ctx] none returns ctx ten show ?thesis
    by (metis (no_types, lifting))
qed

section \<open>Properties of the two-tier cache\<close>

text \<open>
  C8 (as the code has it). A lookup that finds no valid entry in the in-memory tier (no
  entry for the key, or an expired one) and a valid entry in the key's cache file
  returns the cached value of the file and never promotes it: afterwards the memory
  tier has no entry for the key. The memory tier is left unchanged when it had no entry
  for the key; an expired entry for the key is removed from it, which is the only change
  to the agent.
\<close>

theorem getCachedResult_durable_hit:
  assumes "cacheEnabled env"
    and "cache st k = None \<or> (\<exists>c. cache st k = Some c \<and> \<not> fresh env c)"
    and "cacheFiles st (cacheFilePath env k) = Some (Parsed p)"
    and "fresh env p"
  shows "fst (getCachedResult env st k) = Some (data p)
     \<and> snd (getCachedResult env st k) = st\<lparr>cache := (cache st)(k := None)\<rparr>
     \<and> cache (snd (getCachedResult env st k)) k = None
     \<and> (cache st k = None \<longrightarrow> snd (getCachedResult env st k) = st)"
proof -
  from assms(2) show ?thesis
  proof
    assume absent: "cache st k = None"
    then have same: "st\<lparr>cache := (cache st)(k := None)\<rparr> = st"
      by (simp add: fun_upd_idem)
    have "getCachedResult env st k = (Some (data p), st)"
      using assms(1,3,4) absent by (simp add: getCachedResult_def)
    then show ?thesis
      using same absent by simp
  next
    assume "\<exists>c. cache st k = Some c \<and> \<not> fresh env c"
    then obtain c where c: "cache st k = Some c" "\<not> fresh env c"
      by blast
    have "getCachedResult env st k = (Some (data p), st\<lparr>cache := (cache st)(k := None)\<rparr>)"
      using assms(1,3,4) c by (simp add: getCachedResult_def)
    then show ?thesis
      using c by simp
  qed
qed

theorem getCachedResult_durable_hit_witness:
  "fst (getCachedResult exampleEnv exampleAgentCold ''ai_{}'') = Some exampleContext
   \<and> snd (getCachedResult exampleEnv exampleAgentCold ''ai_{}'') = exampleAgentCold
   \<and> fst (getCachedResult exampleEnv exampleAgentStale ''ai_{}'') = Some exampleContext
   \<and> cache (snd (getCachedResult exampleEnv exampleAgentStale ''ai_{}'')) ''ai_{}'' = None"
proof -
  have en: "cacheEnabled exampleEnv"
    by (simp add: exampleEnv_def)
  have onDisk: "cacheFiles exampleAgentCold (cacheFilePath exampleEnv ''ai_{}'')
      = Some (Parsed \<lparr>data = exampleContext, timestamp = 99999000\<rparr>)"
    "cacheFiles exampleAgentStale (cacheFilePath exampleEnv ''ai_{}'')
      = Some (Parsed \<lparr>data = exampleContext, timestamp = 99999000\<rparr>)"
    by (simp_all add: exampleEnv_def exampleAgentCold_def exampleAgentStale_def exampleAgent_def)
  have fr: "fresh exampleEnv \<lparr>data = exampleContext, timestamp = 99999000\<rparr>"
    by (simp add: fresh_def exampleEnv_def)
  have cold: "cache exampleAgentCold ''ai_{}'' = None
      \<or> (\<exists>c. cache exampleAgentCold ''ai_{}'' = Some c \<and> \<not> fresh exampleEnv c)"
    by (simp add: exampleAgentCold_def exampleAgent_def)
  have stale: "cache exampleAgentStale ''ai_{}'' = None
      \<or> (\<exists>c. cache exampleAgentStale ''ai_{}'' = Some c \<and> \<not> fresh exampleEnv c)"
    by (simp add: exampleAgentStale_def fresh_def exampleEnv_def)
  have absent: "cache exampleAgentCold ''ai_{}'' = None"
    by (simp add: exampleAgentCold_def exampleAgent_def)
  have dat: "data \<lparr>data = exampleContext, timestamp = 99999000\<rparr> = exampleContext"
    by simp
  show ?thesis
    using getCachedResult_durable_hit [OF en cold onDisk(1) fr]
      getCachedResult_durable_hit [OF en stale onDisk(2) fr] absent
    unfolding dat by blast
qed

text \<open>
  C8 as the specification states it fails when the miss in the memory tier is an expired
  entry: the lookup returns the value of the valid cache file, and the memory tier is
  not left unchanged, since the expired entry has been removed from it.
\<close>

theorem getCachedResult_expired_entry_counterexample:
  "cache exampleAgentStale ''ai_{}'' = Some \<lparr>data = exampleContextOld, timestamp = 0\<rparr>
   \<and> \<not> fresh exampleEnv \<lparr>data = exampleContextOld, timestamp = 0\<rparr>
   \<and> cacheFiles exampleAgentStale (cacheFilePath exampleEnv ''ai_{}'')
       = Some (Parsed \<lparr>data = exampleContext, timestamp = 99999000\<rparr>)
   \<and> fresh exampleEnv \<lparr>data = exampleContext, timestamp = 99999000\<rparr>
   \<and> fst (getCachedResult exampleEnv exampleAgentStale ''ai_{}'') = Some exampleContext
   \<and> cache (snd (getCachedResult exampleEnv exampleAgentStale ''ai_{}'')) ''ai_{}'' = None"
  by (simp add: getCachedResult_def exampleAgentStale_def exampleAgentCold_def exampleAgent_def
      exampleEnv_def fresh_def)

end
